theory Spec2Isabelle
  imports Main "HOL-Library.Word"
begin

section \<open>The process table of xv6 (proc.c)\<close>

subsection \<open>Data model\<close>

text \<open>
  \<^verbatim>\<open>enum procstate { UNUSED, EMBRYO, SLEEPING, RUNNABLE, RUNNING, ZOMBIE };\<close>
\<close>

datatype procstate = UNUSED | EMBRYO | SLEEPING | RUNNABLE | RUNNING | ZOMBIE

text \<open>
  Kernel pointers that proc.c compares with each other: the null pointer, the address of
  the slot \<open>ptable.proc[i]\<close>, and the address of any other kernel object (a ticket lock,
  for instance). Pointers to distinct objects are distinct.
\<close>

datatype ptr = Null | ProcAddr nat | Addr nat

text \<open>The registers of \<^verbatim>\<open>struct trapframe\<close> that proc.c writes one by one.\<close>

record trapframe =
  eax :: "32 word"
  ebp :: "32 word"
  esp :: "32 word"
  eip :: "32 word"

text \<open>
  Modelled from the spec: \<^verbatim>\<open>struct proc\<close> is declared in proc.h, which is not part of
  the sources; the fields are the ones of section 3 of the specification, under the names
  proc.c uses for them. A kernel stack and a page directory are page addresses, \<open>0\<close> is the
  null pointer. \<^verbatim>\<open>int\<close> fields are integers; where a sum of them can leave the range of
  a C \<^verbatim>\<open>int\<close> the wrap-around is written out (see \<open>wrap32\<close>).
\<close>

record proc =
  sz :: "32 word"
  pgdir :: nat
  kstack :: nat
  state :: procstate
  pid :: int
  parent :: ptr
  tf :: trapframe
  chan :: ptr
  killed :: int
  ofile :: "nat list"
  cwd :: nat
  name :: string
  tickets :: int
  ticks :: int
  threadstack :: "32 word"

text \<open>
  The globals of proc.c (\<open>ptable.proc\<close>, \<open>initproc\<close>, \<open>nextpid\<close>) and, as logs, the calls made
  to the collaborators that release or write memory: \<open>kfrees\<close> lists the arguments of
  \<^verbatim>\<open>kfree\<close>, \<open>vmfrees\<close> those of \<^verbatim>\<open>freevm\<close>, \<open>ustores\<close> the stores into user memory
  (page directory, user address, words written), each in call order. The length of
  \<open>ptable\<close> is \<^verbatim>\<open>NPROC\<close>. The spin lock \<open>ptable.lock\<close> is not modelled: every function
  below is the code as one core runs it between \<^verbatim>\<open>acquire\<close> and \<^verbatim>\<open>release\<close>.
\<close>

record kstate =
  ptable :: "proc list"
  initproc :: ptr
  nextpid :: int
  kfrees :: "nat list"
  vmfrees :: "nat list"
  ustores :: "(nat \<times> 32 word \<times> 32 word list) list"

subsection \<open>wakeup1, wakeup\<close>

text \<open>
  \<^verbatim>\<open>
  for(p = ptable.proc; p < &ptable.proc[NPROC]; p++)
    if(p->state == SLEEPING && p->chan == chan)
      p->state = RUNNABLE;
  \<close>
\<close>

fun wakeup1_loop :: "proc list \<Rightarrow> ptr \<Rightarrow> proc list" where
  "wakeup1_loop [] ch = []"
| "wakeup1_loop (p # ps) ch =
     (if state p = SLEEPING \<and> chan p = ch then p\<lparr>state := RUNNABLE\<rparr> else p)
       # wakeup1_loop ps ch"

definition wakeup1 :: "kstate \<Rightarrow> ptr \<Rightarrow> kstate" where
  "wakeup1 s ch = s\<lparr>ptable := wakeup1_loop (ptable s) ch\<rparr>"

definition wakeup :: "kstate \<Rightarrow> ptr \<Rightarrow> kstate" where
  "wakeup s ch = wakeup1 s ch"

subsection \<open>kill\<close>

text \<open>
  \<^verbatim>\<open>
  for(p = ptable.proc; p < &ptable.proc[NPROC]; p++){
    if(p->pid == pid){
      p->killed = 1;
      if(p->state == SLEEPING)
        p->state = RUNNABLE;
      release(&ptable.lock);
      return 0;
    }
  }
  release(&ptable.lock);
  return -1;
  \<close>
  The loop returns the updated table at the first match and \<open>None\<close> when it runs off the
  end of the table.
\<close>

definition kill_hit :: "proc \<Rightarrow> proc" where
  "kill_hit p =
     (let p1 = p\<lparr>killed := 1\<rparr>
      in if state p1 = SLEEPING then p1\<lparr>state := RUNNABLE\<rparr> else p1)"

fun kill_loop :: "proc list \<Rightarrow> int \<Rightarrow> proc list option" where
  "kill_loop [] n = None"
| "kill_loop (p # ps) n =
     (if pid p = n then Some (kill_hit p # ps)
      else map_option (\<lambda>qs. p # qs) (kill_loop ps n))"

definition kill :: "kstate \<Rightarrow> int \<Rightarrow> int \<times> kstate" where
  "kill s n =
     (case kill_loop (ptable s) n of
        Some ps \<Rightarrow> (0, s\<lparr>ptable := ps\<rparr>)
      | None \<Rightarrow> (- 1, s))"

subsection \<open>tickets_sum, scheduler\<close>

text \<open>
  Addition on a 32-bit signed C integer (\<^verbatim>\<open>int\<close>, and \<^verbatim>\<open>long\<close> on the 32-bit x86
  that xv6 runs on): the sum is reduced into the range from \<open>- 2 ^ 31\<close> to \<open>2 ^ 31 - 1\<close>.
\<close>

definition wrap32 :: "int \<Rightarrow> int" where
  "wrap32 x = (x + 2 ^ 31) mod 2 ^ 32 - 2 ^ 31"

text \<open>
  \<^verbatim>\<open>
  int ticketsTotal=0;
  for(p = ptable.proc; p < &ptable.proc[NPROC]; p++)
    if(p->state==RUNNABLE)
      ticketsTotal+=p->tickets;
  return ticketsTotal;
  \<close>
\<close>

fun tickets_sum_loop :: "proc list \<Rightarrow> int \<Rightarrow> int" where
  "tickets_sum_loop [] ticketsTotal = ticketsTotal"
| "tickets_sum_loop (p # ps) ticketsTotal =
     tickets_sum_loop ps
       (if state p = RUNNABLE then wrap32 (ticketsTotal + tickets p) else ticketsTotal)"

definition tickets_sum :: "kstate \<Rightarrow> int" where
  "tickets_sum s = tickets_sum_loop (ptable s) 0"

text \<open>
  The inner loop of \<^verbatim>\<open>scheduler\<close>, up to the choice of the slot to switch to:
  \<^verbatim>\<open>
  for(p = ptable.proc; p < &ptable.proc[NPROC]; p++){
    if(p->state != RUNNABLE)
      continue;
    counter += p->tickets;
    if (counter < winner)
      continue;
    c->proc = p; ... break;
  }
  \<close>
  The second argument is the index of the slot \<open>p\<close> points to; the result is the index of
  the slot chosen, \<open>None\<close> when the loop ends without choosing one.
\<close>

fun scheduler_loop :: "proc list \<Rightarrow> nat \<Rightarrow> int \<Rightarrow> int \<Rightarrow> nat option" where
  "scheduler_loop [] i counter winner = None"
| "scheduler_loop (p # ps) i counter winner =
     (if state p \<noteq> RUNNABLE then scheduler_loop ps (Suc i) counter winner
      else let counter' = wrap32 (counter + tickets p)
           in if counter' < winner then scheduler_loop ps (Suc i) counter' winner
              else Some i)"

text \<open>
  One pass of the outer loop of \<^verbatim>\<open>scheduler\<close>, up to the context switch:
  \<^verbatim>\<open>
  total_tickets = tickets_sum();
  winner = random_at_most(total_tickets);
  counter = 0;
  for(...){ ...
    c->proc = p;
    switchuvm(p);
    p->state = RUNNING;
    swtch(&(c->scheduler), p->context);
  \<close>
  \<^verbatim>\<open>random_at_most\<close> (rand.c) is a collaborator and a parameter here. The result is the
  value of \<open>c->proc\<close> (the index of the slot dispatched, if any) and the kernel state at
  the switch.
\<close>

definition scheduler_pass :: "(int \<Rightarrow> int) \<Rightarrow> kstate \<Rightarrow> nat option \<times> kstate" where
  "scheduler_pass random_at_most s =
     (let total_tickets = tickets_sum s;
          winner = random_at_most total_tickets
      in case scheduler_loop (ptable s) 0 0 winner of
           None \<Rightarrow> (None, s)
         | Some i \<Rightarrow> (Some i, s\<lparr>ptable := (ptable s)[i := (ptable s ! i)\<lparr>state := RUNNING\<rparr>]\<rparr>))"

text \<open>
  What the pass does when the process switches back to the scheduler:
  \<^verbatim>\<open>switchkvm(); p->ticks += 1; c->proc = 0; break;\<close>
\<close>

definition scheduler_resume :: "kstate \<Rightarrow> nat \<Rightarrow> kstate" where
  "scheduler_resume s i =
     s\<lparr>ptable := (ptable s)[i := (ptable s ! i)\<lparr>ticks := wrap32 (ticks (ptable s ! i) + 1)\<rparr>]\<rparr>"

text \<open>
  The words of the specification: the Runnable records, their ticket total, and the
  cumulative ticket sum over the Runnable records up to and including slot \<open>i\<close>.
\<close>

definition runnable_total :: "proc list \<Rightarrow> int" where
  "runnable_total ps = sum_list (map tickets (filter (\<lambda>p. state p = RUNNABLE) ps))"

definition cum_tickets :: "proc list \<Rightarrow> nat \<Rightarrow> int" where
  "cum_tickets ps i = runnable_total (take (Suc i) ps)"

subsection \<open>allocproc\<close>

text \<open>
  \<^verbatim>\<open>
  for(p = ptable.proc; p < &ptable.proc[NPROC]; p++)
    if(p->state == UNUSED)
      goto found;
  release(&ptable.lock);
  return 0;
  \<close>
  The index of the first UNUSED slot, counting from the index given for the head.
\<close>

fun find_unused :: "proc list \<Rightarrow> nat \<Rightarrow> nat option" where
  "find_unused [] i = None"
| "find_unused (p # ps) i = (if state p = UNUSED then Some i else find_unused ps (Suc i))"

text \<open>
  \<^verbatim>\<open>
  found:
    p->state = EMBRYO;
    p->pid = nextpid++;
    p->tickets=1;
    p->ticks=0;
    release(&ptable.lock);
    if((p->kstack = kalloc()) == 0){
      p->state = UNUSED;
      return 0;
    }
    ...
    return p;
  \<close>
  \<^verbatim>\<open>kalloc\<close> is a collaborator: the first argument is the page it returns when it is
  called, \<open>0\<close> for a failure. The result is the index of the slot returned, \<open>None\<close> for the
  null pointer. The layout of the new kernel stack (trap frame, return address, context)
  is memory layout and is left out.
\<close>

definition allocproc :: "nat \<Rightarrow> kstate \<Rightarrow> nat option \<times> kstate" where
  "allocproc kalloc s =
     (case find_unused (ptable s) 0 of
        None \<Rightarrow> (None, s)
      | Some i \<Rightarrow>
          let p = (ptable s ! i)\<lparr>state := EMBRYO, pid := nextpid s, tickets := 1, ticks := 0\<rparr>;
              s1 = s\<lparr>nextpid := wrap32 (nextpid s + 1)\<rparr>;
              p = p\<lparr>kstack := kalloc\<rparr>
          in if kalloc = 0
             then (None, s1\<lparr>ptable := (ptable s1)[i := p\<lparr>state := UNUSED\<rparr>]\<rparr>)
             else (Some i, s1\<lparr>ptable := (ptable s1)[i := p]\<rparr>))"

subsection \<open>fork\<close>

text \<open>
  \<^verbatim>\<open>
  for(i = 0; i < NOFILE; i++)
    if(curproc->ofile[i])
      np->ofile[i] = filedup(curproc->ofile[i]);
  \<close>
  \<^verbatim>\<open>filedup\<close> returns the handle it is given (the reference count it increments belongs
  to the file layer); both lists have \<^verbatim>\<open>NOFILE\<close> entries.
\<close>

definition dup_ofile :: "nat list \<Rightarrow> nat list \<Rightarrow> nat list" where
  "dup_ofile cur_files np_files = map (\<lambda>(f, g). if f \<noteq> 0 then f else g) (zip cur_files np_files)"

text \<open>
  \<^verbatim>\<open>
  if((np = allocproc()) == 0)
    return -1;
  if((np->pgdir = copyuvm(curproc->pgdir, curproc->sz)) == 0){
    kfree(np->kstack);
    np->kstack = 0;
    np->state = UNUSED;
    return -1;
  }
  np->tickets = curproc->tickets;
  np->sz = curproc->sz;
  np->parent = curproc;
  *np->tf = *curproc->tf;
  np->tf->eax = 0;
  ... files, cwd, name ...
  pid = np->pid;
  np->state = RUNNABLE;
  return pid;
  \<close>
  \<open>c\<close> is the index of the caller's slot (\<^verbatim>\<open>myproc()\<close>), \<open>kalloc\<close> and \<open>copyuvm\<close> are the
  values the two collaborators return when called (\<open>0\<close> for a failure).
\<close>

definition fork :: "nat \<Rightarrow> nat \<Rightarrow> nat \<Rightarrow> kstate \<Rightarrow> int \<times> kstate" where
  "fork kalloc copyuvm c s =
     (case allocproc kalloc s of
        (None, s1) \<Rightarrow> (- 1, s1)
      | (Some i, s1) \<Rightarrow>
          let curproc = ptable s1 ! c;
              np = (ptable s1 ! i)\<lparr>pgdir := copyuvm\<rparr>
          in if copyuvm = 0
             then (- 1, s1\<lparr>kfrees := kfrees s1 @ [kstack np],
                           ptable := (ptable s1)[i := np\<lparr>kstack := 0, state := UNUSED\<rparr>]\<rparr>)
             else
               let np = np\<lparr>tickets := tickets curproc, sz := sz curproc,
                          parent := ProcAddr c, tf := (tf curproc)\<lparr>eax := 0\<rparr>,
                          ofile := dup_ofile (ofile curproc) (ofile np),
                          cwd := cwd curproc, name := name curproc\<rparr>
               in (pid np, s1\<lparr>ptable := (ptable s1)[i := np\<lparr>state := RUNNABLE\<rparr>]\<rparr>))"

subsection \<open>settickets, getpinfo\<close>

text \<open>
  \<^verbatim>\<open>
  if(tickets < 1)
    return -1;
  struct proc *proc = myproc();
  ptable.proc[proc-ptable.proc].tickets = tickets;
  return 0;
  \<close>
\<close>

definition settickets :: "nat \<Rightarrow> int \<Rightarrow> kstate \<Rightarrow> int \<times> kstate" where
  "settickets c n s =
     (if n < 1 then (- 1, s)
      else (0, s\<lparr>ptable := (ptable s)[c := (ptable s ! c)\<lparr>tickets := n\<rparr>]\<rparr>))"

text \<open>
  Modelled from the spec: \<^verbatim>\<open>struct pstat\<close> is declared in pstat.h, which is not part of
  the sources; it holds the statistics per slot of section 6 of the specification (pid,
  in-use flag, ticket count, accumulated ticks), four arrays as \<^verbatim>\<open>getpinfo\<close> fills them:
  \<^verbatim>\<open>
  ps->pid[i] = p->pid;
  ps->inuse[i] = p->state != UNUSED;
  ps->tickets[i] = p->tickets;
  ps->ticks[i] = p->ticks;
  \<close>
\<close>

record pstat =
  ps_pid :: "int list"
  ps_inuse :: "int list"
  ps_tickets :: "int list"
  ps_ticks :: "int list"

definition getpinfo :: "kstate \<Rightarrow> int \<times> pstat" where
  "getpinfo s =
     (0, \<lparr>ps_pid = map pid (ptable s),
          ps_inuse = map (\<lambda>p. if state p \<noteq> UNUSED then 1 else 0) (ptable s),
          ps_tickets = map tickets (ptable s),
          ps_ticks = map ticks (ptable s)\<rparr>)"

subsection \<open>clone\<close>

text \<open>
  Modelled from the spec: \<^verbatim>\<open>PGSIZE\<close> is defined in mmu.h, which is not part of the
  sources. The specification speaks of a page-aligned stack of one page; the page of the
  x86 has 4096 bytes.
\<close>

definition PGSIZE :: "32 word" where
  "PGSIZE = 4096"

text \<open>
  \<^verbatim>\<open>
  if(((uint) stack % PGSIZE) != 0) return -1;
  if((curproc->sz < PGSIZE + (uint) stack)) return -1;
  if((np = allocproc()) == 0)
    return -1;
  np->pgdir = curproc->pgdir;
  np->sz = curproc->sz;
  np->parent = curproc;
  *np->tf = *curproc->tf;
  user_stack[0] = 0xffffffff; user_stack[1] = (uint) arg1; user_stack[2] = (uint) arg2;
  uint stack_top = (uint) stack + PGSIZE;
  stack_top -= 12;
  if (copyout(np->pgdir, stack_top, user_stack, 12) < 0) {
    return -1;
  }
  np->tf->esp = (uint) stack;
  np->tf->eax = 0;
  np->threadstack = stack;
  np->tf->ebp = (uint) stack_top;
  np->tf->esp = (uint) stack_top;
  np->tf->eip = (uint) fcn;
  np->tf->eax = 0;
  ... files, cwd, name ...
  np->state = RUNNABLE;
  return np->pid;
  \<close>
  All the arithmetic is on \<^verbatim>\<open>uint\<close>, that is modulo \<open>2 ^ 32\<close>. \<open>copyout\<close> is the value
  the collaborator returns when called (negative for a failure); the twelve bytes lie in
  one page, so a failing \<^verbatim>\<open>copyout\<close> has stored nothing and a successful one is logged
  in \<open>ustores\<close>.
\<close>

definition clone ::
  "nat \<Rightarrow> int \<Rightarrow> nat \<Rightarrow> 32 word \<Rightarrow> 32 word \<Rightarrow> 32 word \<Rightarrow> 32 word \<Rightarrow> kstate \<Rightarrow> int \<times> kstate" where
  "clone kalloc copyout c fcn arg1 arg2 stack s =
     (let curproc = ptable s ! c in
      if stack mod PGSIZE \<noteq> 0 then (- 1, s)
      else if sz curproc < PGSIZE + stack then (- 1, s)
      else
        case allocproc kalloc s of
          (None, s1) \<Rightarrow> (- 1, s1)
        | (Some i, s1) \<Rightarrow>
            let curproc = ptable s1 ! c;
                np = (ptable s1 ! i)\<lparr>pgdir := pgdir curproc, sz := sz curproc,
                       parent := ProcAddr c, tf := tf curproc\<rparr>;
                user_stack = [0xffffffff, arg1, arg2];
                stack_top = stack + PGSIZE - 12
            in if copyout < 0 then (- 1, s1\<lparr>ptable := (ptable s1)[i := np]\<rparr>)
               else
                 let np = np\<lparr>tf := (tf np)\<lparr>esp := stack, eax := 0\<rparr>,
                            threadstack := stack\<rparr>;
                     np = np\<lparr>tf := (tf np)\<lparr>ebp := stack_top, esp := stack_top, eip := fcn,
                                         eax := 0\<rparr>,
                            ofile := dup_ofile (ofile curproc) (ofile np),
                            cwd := cwd curproc, name := name curproc\<rparr>
                 in (pid np,
                     s1\<lparr>ustores := ustores s1 @ [(pgdir np, stack_top, user_stack)],
                        ptable := (ptable s1)[i := np\<lparr>state := RUNNABLE\<rparr>]\<rparr>))"

subsection \<open>sched, sleep\<close>

text \<open>
  How a call ends: it returns a value, the kernel panics, or the calling kernel thread has
  switched to the scheduler (\<^verbatim>\<open>swtch\<close>) and is never switched back to.
\<close>

datatype 'a outcome = Returns 'a kstate | Panics string | Suspended kstate

text \<open>
  Modelled from the spec: the per-core record (\<^verbatim>\<open>struct cpu\<close> of proc.h) and the spin
  lock are not part of the sources. The record holds what \<^verbatim>\<open>sched\<close> reads from them
  when it is called: \<^verbatim>\<open>holding(&ptable.lock)\<close>, the interrupt-nesting depth
  \<^verbatim>\<open>mycpu()->ncli\<close> and the interrupt flag of \<^verbatim>\<open>readeflags()\<close>.
\<close>

record cpu =
  holding :: bool
  ncli :: int
  eflags_if :: bool

text \<open>
  \<^verbatim>\<open>
  if(!holding(&ptable.lock)) panic("sched ptable.lock");
  if(mycpu()->ncli != 1) panic("sched locks");
  if(p->state == RUNNING) panic("sched running");
  if(readeflags()&FL_IF) panic("sched interruptible");
  intena = mycpu()->intena;
  swtch(&p->context, mycpu()->scheduler);
  \<close>
  The checks of \<^verbatim>\<open>sched\<close>: the message of the panic, or \<open>None\<close> when the call reaches
  \<^verbatim>\<open>swtch\<close>.
\<close>

definition sched :: "cpu \<Rightarrow> nat \<Rightarrow> kstate \<Rightarrow> string option" where
  "sched cp c s =
     (if \<not> holding cp then Some ''sched ptable.lock''
      else if ncli cp \<noteq> 1 then Some ''sched locks''
      else if state (ptable s ! c) = RUNNING then Some ''sched running''
      else if eflags_if cp then Some ''sched interruptible''
      else None)"

text \<open>
  \<^verbatim>\<open>sleep(chan, &ptable.lock)\<close> before and after its call of \<^verbatim>\<open>sched\<close>:
  \<^verbatim>\<open>p->chan = chan; p->state = SLEEPING; sched(); p->chan = 0;\<close>
\<close>

definition sleep_enter :: "nat \<Rightarrow> ptr \<Rightarrow> kstate \<Rightarrow> kstate" where
  "sleep_enter c ch s = s\<lparr>ptable := (ptable s)[c := (ptable s ! c)\<lparr>chan := ch, state := SLEEPING\<rparr>]\<rparr>"

definition sleep_leave :: "nat \<Rightarrow> kstate \<Rightarrow> kstate" where
  "sleep_leave c s = s\<lparr>ptable := (ptable s)[c := (ptable s ! c)\<lparr>chan := Null\<rparr>]\<rparr>"

subsection \<open>wait\<close>

text \<open>
  \<^verbatim>\<open>
  havekids = 0;
  for(p = ptable.proc; p < &ptable.proc[NPROC]; p++){
    if(p->parent != curproc)
      continue;
    havekids = 1;
    if(p->state == ZOMBIE){ ... return pid; }
  }
  \<close>
  The scan: \<open>Inl i\<close> when it stops at slot \<open>i\<close>, \<open>Inr havekids\<close> when it reaches the end of
  the table.
\<close>

fun wait_loop :: "proc list \<Rightarrow> nat \<Rightarrow> ptr \<Rightarrow> bool \<Rightarrow> nat + bool" where
  "wait_loop [] i curproc havekids = Inr havekids"
| "wait_loop (p # ps) i curproc havekids =
     (if parent p \<noteq> curproc then wait_loop ps (Suc i) curproc havekids
      else if state p = ZOMBIE then Inl i
      else wait_loop ps (Suc i) curproc True)"

text \<open>
  \<^verbatim>\<open>
  pid = p->pid;
  kfree(p->kstack);
  p->kstack = 0;
  freevm(p->pgdir);
  p->pid = 0;
  p->parent = 0;
  p->name[0] = 0;
  p->killed = 0;
  p->state = UNUSED;
  release(&ptable.lock);
  return pid;
  \<close>
\<close>

definition wait_reap :: "nat \<Rightarrow> kstate \<Rightarrow> int outcome" where
  "wait_reap i s =
     (let p = ptable s ! i
      in Returns (pid p)
           (s\<lparr>kfrees := kfrees s @ [kstack p], vmfrees := vmfrees s @ [pgdir p],
              ptable := (ptable s)[i := p\<lparr>kstack := 0, pid := 0, parent := Null, name := [],
                                          killed := 0, state := UNUSED\<rparr>]\<rparr>))"

text \<open>
  \<^verbatim>\<open>
  for(;;){
    ... the scan ...
    if(!havekids || curproc->killed){
      release(&ptable.lock);
      return -1;
    }
    sleep(curproc, &ptable.lock);
  }
  \<close>
  \<open>c\<close> is the caller's slot. While the caller sleeps other kernel threads run: \<open>env\<close>
  lists the kernel states in which the caller is switched back to, one for each
  \<^verbatim>\<open>sleep\<close>, in order; when the list is used up the caller is never woken again.
\<close>

fun wait :: "cpu \<Rightarrow> nat \<Rightarrow> kstate list \<Rightarrow> kstate \<Rightarrow> int outcome" where
  "wait cp c env s =
     (case wait_loop (ptable s) 0 (ProcAddr c) False of
        Inl i \<Rightarrow> wait_reap i s
      | Inr havekids \<Rightarrow>
          if \<not> havekids \<or> killed (ptable s ! c) \<noteq> 0 then Returns (- 1) s
          else
            let s1 = sleep_enter c (ProcAddr c) s
            in case sched cp c s1 of
                 Some msg \<Rightarrow> Panics msg
               | None \<Rightarrow>
                   (case env of
                      [] \<Rightarrow> Suspended s1
                    | e # env' \<Rightarrow> wait cp c env' (sleep_leave c e)))"

subsection \<open>join\<close>

text \<open>
  \<^verbatim>\<open>
  havethreads = 0;
  for(p = ptable.proc; p < &ptable.proc[NPROC]; p++){
    if(p->parent != curproc || p->pgdir != p->parent->pgdir)
      continue;
    havethreads = 1;
    if(p->state == ZOMBIE){ ... return pid; }
  }
  \<close>
  The second test is only reached with \<open>p->parent == curproc\<close>, so \<open>p->parent->pgdir\<close> is
  the page directory of the caller (the fourth argument).
\<close>

fun join_loop :: "proc list \<Rightarrow> nat \<Rightarrow> ptr \<Rightarrow> nat \<Rightarrow> bool \<Rightarrow> nat + bool" where
  "join_loop [] i curproc curpgdir havethreads = Inr havethreads"
| "join_loop (p # ps) i curproc curpgdir havethreads =
     (if parent p \<noteq> curproc \<or> pgdir p \<noteq> curpgdir
      then join_loop ps (Suc i) curproc curpgdir havethreads
      else if state p = ZOMBIE then Inl i
      else join_loop ps (Suc i) curproc curpgdir True)"

text \<open>
  \<^verbatim>\<open>
  pid = p->pid;
  kfree(p->kstack);
  p->kstack = 0;
  p->pid = 0;
  p->parent = 0;
  p->name[0] = 0;
  p->killed = 0;
  p->state = UNUSED;
  stack = p->threadstack;
  p->threadstack = 0;
  release(&ptable.lock);
  return pid;
  \<close>
  \<open>stack\<close> is the parameter \<^verbatim>\<open>void** stack\<close> of \<^verbatim>\<open>join\<close>, the address of the caller's
  variable. The assignment \<^verbatim>\<open>stack = p->threadstack\<close> overwrites the parameter, a local
  variable that is dead afterwards; the code has no store through it (that would be
  \<^verbatim>\<open>*stack = ...\<close>, an entry in \<open>ustores\<close>).
\<close>

definition join_reap :: "nat \<Rightarrow> 32 word \<Rightarrow> kstate \<Rightarrow> int outcome" where
  "join_reap i stack s =
     (let p = ptable s ! i;
          s1 = s\<lparr>kfrees := kfrees s @ [kstack p],
                 ptable := (ptable s)[i := p\<lparr>kstack := 0, pid := 0, parent := Null, name := [],
                                             killed := 0, state := UNUSED\<rparr>]\<rparr>;
          stack = threadstack p
      in Returns (pid p)
           (s1\<lparr>ptable := (ptable s1)[i := (ptable s1 ! i)\<lparr>threadstack := 0\<rparr>]\<rparr>))"

fun join :: "cpu \<Rightarrow> nat \<Rightarrow> 32 word \<Rightarrow> kstate list \<Rightarrow> kstate \<Rightarrow> int outcome" where
  "join cp c stack env s =
     (case join_loop (ptable s) 0 (ProcAddr c) (pgdir (ptable s ! c)) False of
        Inl i \<Rightarrow> join_reap i stack s
      | Inr havethreads \<Rightarrow>
          if \<not> havethreads \<or> killed (ptable s ! c) \<noteq> 0 then Returns (- 1) s
          else
            let s1 = sleep_enter c (ProcAddr c) s
            in case sched cp c s1 of
                 Some msg \<Rightarrow> Panics msg
               | None \<Rightarrow>
                   (case env of
                      [] \<Rightarrow> Suspended s1
                    | e # env' \<Rightarrow> join cp c stack env' (sleep_leave c e)))"

subsection \<open>exit\<close>

text \<open>
  One iteration of
  \<^verbatim>\<open>
  for(p = ptable.proc; p < &ptable.proc[NPROC]; p++){
    if(p->parent == curproc){
      p->parent = initproc;
      if(p->state == ZOMBIE)
        wakeup1(initproc);
    }
  }
  \<close>
  at slot \<open>i\<close>, and the loop over the slots \<open>0, ..., n - 1\<close> in this order.
\<close>

definition exit_step :: "nat \<Rightarrow> kstate \<Rightarrow> nat \<Rightarrow> kstate" where
  "exit_step c s i =
     (if parent (ptable s ! i) = ProcAddr c
      then let s1 = s\<lparr>ptable := (ptable s)[i := (ptable s ! i)\<lparr>parent := initproc s\<rparr>]\<rparr>
           in if state (ptable s1 ! i) = ZOMBIE then wakeup1 s1 (initproc s1) else s1
      else s)"

fun exit_loop :: "nat \<Rightarrow> nat \<Rightarrow> kstate \<Rightarrow> kstate" where
  "exit_loop c 0 s = s"
| "exit_loop c (Suc n) s = exit_step c (exit_loop c n s) n"

text \<open>
  \<^verbatim>\<open>
  for(fd = 0; fd < NOFILE; fd++){
    if(curproc->ofile[fd]){
      fileclose(curproc->ofile[fd]);
      curproc->ofile[fd] = 0;
    }
  }
  begin_op(); iput(curproc->cwd); end_op();
  curproc->cwd = 0;
  acquire(&ptable.lock);
  wakeup1(curproc->parent);
  for(...){ ... }
  curproc->state = ZOMBIE;
  \<close>
  The kernel state with which \<^verbatim>\<open>exit\<close> calls \<^verbatim>\<open>sched\<close>.
\<close>

definition exit_zombie :: "nat \<Rightarrow> kstate \<Rightarrow> kstate" where
  "exit_zombie c s =
     (let s1 = s\<lparr>ptable := (ptable s)[c := (ptable s ! c)
                    \<lparr>ofile := map (\<lambda>f. 0) (ofile (ptable s ! c)), cwd := 0\<rparr>]\<rparr>;
          s2 = wakeup1 s1 (parent (ptable s1 ! c));
          s3 = exit_loop c (length (ptable s2)) s2
      in s3\<lparr>ptable := (ptable s3)[c := (ptable s3 ! c)\<lparr>state := ZOMBIE\<rparr>]\<rparr>)"

text \<open>
  \<^verbatim>\<open>
  if(curproc == initproc)
    panic("init exiting");
  ...
  curproc->state = ZOMBIE;
  sched();
  panic("zombie exit");
  \<close>
  \<open>env\<close> is as for \<open>wait\<close>: if the caller is ever switched back to, \<^verbatim>\<open>sched\<close> returns
  and the next statement is the panic.
\<close>

definition exit :: "cpu \<Rightarrow> nat \<Rightarrow> kstate list \<Rightarrow> kstate \<Rightarrow> unit outcome" where
  "exit cp c env s =
     (if ProcAddr c = initproc s then Panics ''init exiting''
      else
        let s1 = exit_zombie c s
        in case sched cp c s1 of
             Some msg \<Rightarrow> Panics msg
           | None \<Rightarrow> (case env of [] \<Rightarrow> Suspended s1 | e # env' \<Rightarrow> Panics ''zombie exit''))"

subsection \<open>The ticket lock: initlock_t, acquire_t, release_t\<close>

text \<open>
  Modelled from the spec: \<^verbatim>\<open>struct ticketlock\<close> is declared in ticketlock.h, which is not
  part of the sources; the specification gives it two counters, \<open>next_ticket\<close> and
  \<open>current_turn\<close>. They are 32-bit, as the \<^verbatim>\<open>int myTicket\<close> that receives the value
  fetched from \<open>next_ticket\<close>, and additions wrap around.
\<close>

record ticketlock =
  next_ticket :: "32 word"
  current_turn :: "32 word"

text \<open>\<^verbatim>\<open>lk->next_ticket = 0; lk->current_turn = 0;\<close>\<close>

definition initlock_t :: ticketlock where
  "initlock_t = \<lparr>next_ticket = 0, current_turn = 0\<rparr>"

text \<open>
  Modelled from the spec: \<^verbatim>\<open>fetch_and_add(addr, val)\<close> is declared in x86.h, which is not
  part of the sources; the specification has it fetch and increment atomically. It
  returns the old content of the cell and adds \<open>val\<close> to it; the result is the value
  returned and the new content.
\<close>

definition fetch_and_add :: "32 word \<Rightarrow> 32 word \<Rightarrow> 32 word \<times> 32 word" where
  "fetch_and_add cell val = (cell, cell + val)"

text \<open>
  Where a kernel thread stands with respect to one lock: outside \<^verbatim>\<open>acquire_t\<close> and the
  critical section; at the test of the \<^verbatim>\<open>while\<close> loop of \<^verbatim>\<open>acquire_t\<close> with its
  \<open>myTicket\<close>; past a failed test, on its way into \<^verbatim>\<open>ticket_sleep\<close>; asleep in
  \<^verbatim>\<open>ticket_sleep\<close> on the lock's address; in the critical section, \<^verbatim>\<open>acquire_t\<close>
  having returned.
\<close>

datatype tstate =
  Outside | Testing "32 word" | Sleepy "32 word" | Asleep "32 word" | Critical "32 word"

fun ticket_of :: "tstate \<Rightarrow> 32 word option" where
  "ticket_of Outside = None"
| "ticket_of (Testing m) = Some m"
| "ticket_of (Sleepy m) = Some m"
| "ticket_of (Asleep m) = Some m"
| "ticket_of (Critical m) = Some m"

text \<open>
  One lock and the kernel threads that use it. \<open>entered\<close> is not in the code: it is the
  history of the lock, the tickets with which \<^verbatim>\<open>acquire_t\<close> has returned, oldest
  first.
\<close>

record tlsys =
  lk :: ticketlock
  thread :: "nat \<Rightarrow> tstate"
  entered :: "32 word list"

definition tl_init :: tlsys where
  "tl_init = \<lparr>lk = initlock_t, thread = (\<lambda>i. Outside), entered = []\<rparr>"

text \<open>
  The atomic steps of thread \<open>i\<close>. First
  \<^verbatim>\<open>int myTicket = fetch_and_add(&lk->next_ticket, 1);\<close>
\<close>

definition acquire_t_fetch :: "nat \<Rightarrow> tlsys \<Rightarrow> tlsys" where
  "acquire_t_fetch i s =
     (let (myTicket, n) = fetch_and_add (next_ticket (lk s)) 1
      in s\<lparr>lk := (lk s)\<lparr>next_ticket := n\<rparr>, thread := (thread s)(i := Testing myTicket)\<rparr>)"

text \<open>
  One evaluation of the loop test of
  \<^verbatim>\<open>while (lk->current_turn != myTicket) ticket_sleep(lk);\<close>
  the thread leaves for \<^verbatim>\<open>ticket_sleep\<close>, or \<^verbatim>\<open>acquire_t\<close> returns.
\<close>

definition acquire_t_test :: "nat \<Rightarrow> 32 word \<Rightarrow> tlsys \<Rightarrow> tlsys" where
  "acquire_t_test i myTicket s =
     (if current_turn (lk s) \<noteq> myTicket then s\<lparr>thread := (thread s)(i := Sleepy myTicket)\<rparr>
      else s\<lparr>thread := (thread s)(i := Critical myTicket), entered := entered s @ [myTicket]\<rparr>)"

text \<open>
  \<^verbatim>\<open>ticket_sleep(lk)\<close> up to its \<^verbatim>\<open>sched()\<close>: under \<open>ptable.lock\<close> the thread becomes
  SLEEPING on the channel \<open>lk\<close>. Only from here on does a \<^verbatim>\<open>wakeup(lk)\<close> reach it.
\<close>

definition ticket_sleep :: "nat \<Rightarrow> 32 word \<Rightarrow> tlsys \<Rightarrow> tlsys" where
  "ticket_sleep i myTicket s = s\<lparr>thread := (thread s)(i := Asleep myTicket)\<rparr>"

text \<open>
  \<^verbatim>\<open>fetch_and_add(&lk->current_turn, 1); wakeup(lk);\<close>
  \<^verbatim>\<open>wakeup\<close> makes every thread that sleeps on the lock runnable; it returns from
  \<^verbatim>\<open>ticket_sleep\<close> to the loop test. The thread that releases leaves the critical
  section.
\<close>

definition release_t :: "nat \<Rightarrow> tlsys \<Rightarrow> tlsys" where
  "release_t i s =
     (let (old, t) = fetch_and_add (current_turn (lk s)) 1;
          woken = (\<lambda>j. case thread s j of Asleep m \<Rightarrow> Testing m | st \<Rightarrow> st)
      in s\<lparr>lk := (lk s)\<lparr>current_turn := t\<rparr>, thread := woken(i := Outside)\<rparr>)"

text \<open>
  The interleavings. An action names the thread that takes its next atomic step; a step
  is possible only where the thread stands at it (\<^verbatim>\<open>release_t\<close> is called by the
  thread in the critical section). \<open>run\<close> executes a schedule from left to right and is
  \<open>None\<close> when the schedule asks for a step that is not possible.
\<close>

datatype action = Fetch nat | Test nat | Sleep nat | Release nat

fun step :: "action \<Rightarrow> tlsys \<Rightarrow> tlsys option" where
  "step (Fetch i) s = (case thread s i of Outside \<Rightarrow> Some (acquire_t_fetch i s) | _ \<Rightarrow> None)"
| "step (Test i) s = (case thread s i of Testing m \<Rightarrow> Some (acquire_t_test i m s) | _ \<Rightarrow> None)"
| "step (Sleep i) s = (case thread s i of Sleepy m \<Rightarrow> Some (ticket_sleep i m s) | _ \<Rightarrow> None)"
| "step (Release i) s = (case thread s i of Critical m \<Rightarrow> Some (release_t i s) | _ \<Rightarrow> None)"

fun run :: "action list \<Rightarrow> tlsys \<Rightarrow> tlsys option" where
  "run [] s = Some s"
| "run (a # as) s = (case step a s of None \<Rightarrow> None | Some s' \<Rightarrow> run as s')"

fun is_fetch :: "action \<Rightarrow> bool" where
  "is_fetch (Fetch i) = True"
| "is_fetch a = False"


subsection \<open>Example tables\<close>

text \<open>A slot of the zero-initialised static table.\<close>

definition slot0 :: proc where
  "slot0 = \<lparr>sz = 0, pgdir = 0, kstack = 0, state = UNUSED, pid = 0, parent = Null,
     tf = \<lparr>eax = 0, ebp = 0, esp = 0, eip = 0\<rparr>, chan = Null, killed = 0,
     ofile = [], cwd = 0, name = [], tickets = 0, ticks = 0, threadstack = 0\<rparr>"

definition mk_state :: "proc list \<Rightarrow> kstate" where
  "mk_state ps = \<lparr>ptable = ps, initproc = ProcAddr 0, nextpid = 10,
     kfrees = [], vmfrees = [], ustores = []\<rparr>"

definition wk_table :: "proc list" where
  "wk_table =
     [slot0\<lparr>state := RUNNING, pid := 1\<rparr>,
      slot0\<lparr>state := SLEEPING, pid := 2, chan := Addr 7\<rparr>,
      slot0\<lparr>state := SLEEPING, pid := 3, chan := Addr 8\<rparr>,
      slot0\<lparr>state := SLEEPING, pid := 4, chan := Addr 7\<rparr>,
      slot0\<lparr>state := ZOMBIE, pid := 5, chan := Addr 7\<rparr>]"


definition sch_table :: "proc list" where
  "sch_table =
     [slot0\<lparr>state := RUNNABLE, pid := 1, tickets := 5\<rparr>,
      slot0\<lparr>state := EMBRYO, pid := 2, tickets := 100\<rparr>,
      slot0\<lparr>state := RUNNABLE, pid := 3, tickets := 4\<rparr>,
      slot0\<lparr>state := RUNNABLE, pid := 4, tickets := 5\<rparr>]"

text \<open>
  A running process (slot 1, pid 2, three pages of memory) next to init (slot 0), with the
  third slot free.
\<close>

definition cl_table :: "proc list" where
  "cl_table =
     [slot0\<lparr>state := SLEEPING, pid := 1, pgdir := 100, kstack := 200, tickets := 1,
            chan := ProcAddr 0, sz := 0x3000\<rparr>,
      slot0\<lparr>state := RUNNING, pid := 2, pgdir := 101, kstack := 201, tickets := 7,
            parent := ProcAddr 0, sz := 0x3000\<rparr>,
      slot0]"

text \<open>The per-core state with which \<^verbatim>\<open>sched\<close> passes its checks.\<close>

definition ok_cpu :: cpu where
  "ok_cpu = \<lparr>holding = True, ncli = 1, eflags_if = False\<rparr>"

text \<open>
  Init sleeping in \<^verbatim>\<open>wait\<close> (slot 0); the caller (slot 1, killed); its children: a
  sleeping process (slot 2), a Zombie process with its own address space (slot 3) and a
  Zombie thread sharing the caller's page directory 101 (slot 4).
\<close>

definition w_table :: "proc list" where
  "w_table =
     [slot0\<lparr>state := SLEEPING, pid := 1, pgdir := 100, kstack := 200, tickets := 1,
            chan := ProcAddr 0, sz := 0x3000\<rparr>,
      slot0\<lparr>state := RUNNING, pid := 2, pgdir := 101, kstack := 201, tickets := 7,
            parent := ProcAddr 0, sz := 0x3000, killed := 1\<rparr>,
      slot0\<lparr>state := SLEEPING, pid := 3, pgdir := 102, kstack := 202, tickets := 7,
            parent := ProcAddr 1, sz := 0x3000\<rparr>,
      slot0\<lparr>state := ZOMBIE, pid := 4, pgdir := 103, kstack := 203, tickets := 7,
            parent := ProcAddr 1, sz := 0x3000\<rparr>,
      slot0\<lparr>state := ZOMBIE, pid := 5, pgdir := 101, kstack := 204, tickets := 7,
            parent := ProcAddr 1, sz := 0x3000, threadstack := 0x2000\<rparr>]"


text \<open>
  The table \<open>sch_table\<close> after the process in slot 0 has called \<open>settickets(2147483646)\<close>,
  and a table with two processes that hold the largest ticket count of a C \<^verbatim>\<open>int\<close>.
\<close>

definition sch_big :: kstate where
  "sch_big = snd (settickets 0 2147483646 (mk_state sch_table))"

definition sch_wrap_table :: "proc list" where
  "sch_wrap_table =
     [slot0\<lparr>state := RUNNABLE, pid := 1, tickets := 10\<rparr>,
      slot0\<lparr>state := RUNNABLE, pid := 2, tickets := 2147483647\<rparr>,
      slot0\<lparr>state := RUNNABLE, pid := 3, tickets := 2147483647\<rparr>,
      slot0\<lparr>state := RUNNABLE, pid := 4, tickets := 100\<rparr>]"


text \<open>
  A schedule with a lost wake-up, and one round of thread 0 taking and releasing the lock
  on its own.
\<close>

definition tl_lost :: "action list" where
  "tl_lost = [Fetch 0, Fetch 1, Test 1, Test 0, Release 0, Sleep 1]"

definition tl_round :: "action list" where
  "tl_round = [Fetch 0, Test 0, Release 0]"

text \<open>
  The state after a lost wake-up, \<open>k\<close> tickets having been drawn: thread 1 is asleep with
  ticket 1, it is the turn of ticket 1, nobody is in the critical section and every
  other ticket is 2 or larger.
\<close>

definition tl_stuck :: "nat \<Rightarrow> tlsys \<Rightarrow> bool" where
  "tl_stuck k s \<longleftrightarrow>
     unat (next_ticket (lk s)) = k \<and> 2 \<le> k \<and> current_turn (lk s) = 1 \<and>
     thread s 1 = Asleep 1 \<and>
     (\<forall>i m. thread s i \<noteq> Critical m) \<and>
     (\<forall>i m. i \<noteq> 1 \<and> ticket_of (thread s i) = Some m \<longrightarrow> 2 \<le> unat m)"

section \<open>Properties\<close>

subsection \<open>wakeup\<close>

lemma length_wakeup1_loop: "length (wakeup1_loop ps ch) = length ps"
  by (induction ps) simp_all

lemma nth_wakeup1_loop:
  "i < length ps \<Longrightarrow>
   wakeup1_loop ps ch ! i =
     (if state (ps ! i) = SLEEPING \<and> chan (ps ! i) = ch
      then (ps ! i)\<lparr>state := RUNNABLE\<rparr> else ps ! i)"
proof (induction ps arbitrary: i)
  case Nil
  then show ?case by simp
next
  case (Cons p ps)
  show ?case
  proof (cases i)
    case 0
    then show ?thesis by simp
  next
    case (Suc j)
    with Cons.prems have "j < length ps" by simp
    from Cons.IH [OF this] Suc show ?thesis by simp
  qed
qed

text \<open>
  C8. \<open>wakeup ch\<close> is a broadcast: every slot that is SLEEPING on the channel \<open>ch\<close>
  becomes RUNNABLE (with nothing else in it changed), every other slot is left as it
  was, and no other part of the kernel state changes.
\<close>

theorem wakeup_broadcast:
  "length (ptable (wakeup s ch)) = length (ptable s) \<and>
   (\<forall>i < length (ptable s).
      ptable (wakeup s ch) ! i =
        (if state (ptable s ! i) = SLEEPING \<and> chan (ptable s ! i) = ch
         then (ptable s ! i)\<lparr>state := RUNNABLE\<rparr> else ptable s ! i)) \<and>
   wakeup s ch = s\<lparr>ptable := ptable (wakeup s ch)\<rparr>"
  by (simp add: wakeup_def wakeup1_def length_wakeup1_loop nth_wakeup1_loop)

theorem wakeup_broadcast_witness:
  "map state (ptable (wakeup (mk_state wk_table) (Addr 7))) =
     [RUNNING, RUNNABLE, SLEEPING, RUNNABLE, ZOMBIE] \<and>
   ptable (wakeup (mk_state wk_table) (Addr 7)) ! 1 = (wk_table ! 1)\<lparr>state := RUNNABLE\<rparr> \<and>
   ptable (wakeup (mk_state wk_table) (Addr 7)) ! 2 = wk_table ! 2 \<and>
   ptable (wakeup (mk_state wk_table) (Addr 7)) ! 4 = wk_table ! 4"
  using wakeup_broadcast [of "mk_state wk_table" "Addr 7"]
  by (simp add: mk_state_def wk_table_def slot0_def wakeup_def wakeup1_def)

subsection \<open>kill\<close>

lemma kill_loop_first:
  "k < length ps \<Longrightarrow> pid (ps ! k) = n \<Longrightarrow> \<forall>j<k. pid (ps ! j) \<noteq> n \<Longrightarrow>
   kill_loop ps n = Some (ps[k := kill_hit (ps ! k)])"
proof (induction ps arbitrary: k)
  case Nil
  then show ?case by simp
next
  case (Cons p ps)
  show ?case
  proof (cases k)
    case 0
    with Cons.prems show ?thesis by simp
  next
    case (Suc m)
    from Cons.prems(3) Suc have hd: "pid p \<noteq> n" by auto
    from Cons.prems Suc have m: "m < length ps" "pid (ps ! m) = n" by simp_all
    from Cons.prems(3) Suc have "\<forall>j<m. pid (ps ! j) \<noteq> n" by auto
    from Cons.IH [OF m this] hd Suc show ?thesis by simp
  qed
qed

lemma kill_loop_none:
  "\<forall>k<length ps. pid (ps ! k) \<noteq> n \<Longrightarrow> kill_loop ps n = None"
proof (induction ps)
  case Nil
  then show ?case by simp
next
  case (Cons p ps)
  from Cons.prems have "pid p \<noteq> n" by auto
  moreover from Cons.prems have "\<forall>k<length ps. pid (ps ! k) \<noteq> n" by auto
  ultimately show ?case using Cons.IH by simp
qed

text \<open>
  C6. When some slot carries the pid, \<open>kill\<close> takes the first such slot in table order,
  sets its \<open>killed\<close> flag, makes it RUNNABLE if it was SLEEPING and keeps its state
  otherwise, changes no other slot, and returns 0. When no slot carries the pid, \<open>kill\<close>
  returns -1 and the kernel state is the one it started from.
\<close>

theorem kill_sets_flag_or_fails:
  "(\<forall>k. k < length (ptable s) \<and> pid (ptable s ! k) = n \<and> (\<forall>j<k. pid (ptable s ! j) \<noteq> n) \<longrightarrow>
      kill s n =
        (0, s\<lparr>ptable := (ptable s)
              [k := (ptable s ! k)\<lparr>killed := 1,
                     state := (if state (ptable s ! k) = SLEEPING then RUNNABLE
                               else state (ptable s ! k))\<rparr>]\<rparr>)) \<and>
   ((\<forall>k<length (ptable s). pid (ptable s ! k) \<noteq> n) \<longrightarrow> kill s n = (- 1, s))"
proof (intro conjI allI impI)
  fix k
  assume h: "k < length (ptable s) \<and> pid (ptable s ! k) = n \<and> (\<forall>j<k. pid (ptable s ! j) \<noteq> n)"
  then have "kill_loop (ptable s) n = Some ((ptable s)[k := kill_hit (ptable s ! k)])"
    by (intro kill_loop_first) simp_all
  moreover have "kill_hit (ptable s ! k) =
      (ptable s ! k)\<lparr>killed := 1,
         state := (if state (ptable s ! k) = SLEEPING then RUNNABLE else state (ptable s ! k))\<rparr>"
    by (simp add: kill_hit_def Let_def)
  ultimately show "kill s n =
        (0, s\<lparr>ptable := (ptable s)
              [k := (ptable s ! k)\<lparr>killed := 1,
                     state := (if state (ptable s ! k) = SLEEPING then RUNNABLE
                               else state (ptable s ! k))\<rparr>]\<rparr>)"
    by (simp add: kill_def)
next
  assume "\<forall>k<length (ptable s). pid (ptable s ! k) \<noteq> n"
  then have "kill_loop (ptable s) n = None" by (rule kill_loop_none)
  then show "kill s n = (- 1, s)" by (simp add: kill_def)
qed

theorem kill_sets_flag_or_fails_witness:
  "kill (mk_state wk_table) 3 =
     (0, mk_state (wk_table[2 := (wk_table ! 2)\<lparr>killed := 1, state := RUNNABLE\<rparr>])) \<and>
   kill (mk_state wk_table) 5 =
     (0, mk_state (wk_table[4 := (wk_table ! 4)\<lparr>killed := 1\<rparr>])) \<and>
   kill (mk_state wk_table) 9 = (- 1, mk_state wk_table)"
proof -
  have a: "\<forall>j<2. pid (ptable (mk_state wk_table) ! j) \<noteq> 3"
    by (simp add: mk_state_def wk_table_def slot0_def less_Suc_eq numeral_2_eq_2)
  have b: "\<forall>j<4. pid (ptable (mk_state wk_table) ! j) \<noteq> 5"
    by (simp add: mk_state_def wk_table_def slot0_def less_Suc_eq numeral_eq_Suc)
  have c: "\<forall>k<length (ptable (mk_state wk_table)). pid (ptable (mk_state wk_table) ! k) \<noteq> 9"
    by (simp add: mk_state_def wk_table_def slot0_def less_Suc_eq numeral_eq_Suc)
  from kill_sets_flag_or_fails [of "mk_state wk_table" 3, THEN conjunct1, rule_format, of 2] a
  have "kill (mk_state wk_table) 3 =
     (0, mk_state (wk_table[2 := (wk_table ! 2)\<lparr>killed := 1, state := RUNNABLE\<rparr>]))"
    by (simp add: mk_state_def wk_table_def slot0_def)
  moreover
  from kill_sets_flag_or_fails [of "mk_state wk_table" 5, THEN conjunct1, rule_format, of 4] b
  have "kill (mk_state wk_table) 5 =
     (0, mk_state (wk_table[4 := (wk_table ! 4)\<lparr>killed := 1\<rparr>]))"
    by (simp add: mk_state_def wk_table_def slot0_def)
  moreover
  from kill_sets_flag_or_fails [of "mk_state wk_table" 9, THEN conjunct2] c
  have "kill (mk_state wk_table) 9 = (- 1, mk_state wk_table)"
    by simp
  ultimately show ?thesis by simp
qed




subsection \<open>scheduler\<close>

lemma wrap32_id: "- (2 ^ 31) \<le> x \<Longrightarrow> x < 2 ^ 31 \<Longrightarrow> wrap32 x = x"
  by (simp add: wrap32_def)

lemma runnable_total_Cons:
  "runnable_total (p # ps) = (if state p = RUNNABLE then tickets p else 0) + runnable_total ps"
  by (simp add: runnable_total_def)

lemma cum_tickets_0:
  "cum_tickets (p # ps) 0 = (if state p = RUNNABLE then tickets p else 0)"
  by (simp add: cum_tickets_def runnable_total_def)

lemma cum_tickets_Suc:
  "cum_tickets (p # ps) (Suc j) = (if state p = RUNNABLE then tickets p else 0) + cum_tickets ps j"
  by (simp add: cum_tickets_def runnable_total_def)

text \<open>The loop stops at Runnable slots only, whatever the counter does.\<close>

lemma scheduler_loop_runnable:
  "scheduler_loop ps i c w = Some k \<Longrightarrow>
   i \<le> k \<and> k - i < length ps \<and> state (ps ! (k - i)) = RUNNABLE"
proof (induction ps arbitrary: i c)
  case Nil
  then show ?case by simp
next
  case (Cons p ps)
  show ?case
  proof (cases "scheduler_loop (p # ps) i c w = Some i \<and> state p = RUNNABLE \<and> k = i")
    case True
    then show ?thesis by simp
  next
    case False
    with Cons.prems obtain c' where "scheduler_loop ps (Suc i) c' w = Some k"
      by (auto simp: Let_def split: if_splits)
    from Cons.IH [OF this] have "Suc i \<le> k" "k - Suc i < length ps"
      "state (ps ! (k - Suc i)) = RUNNABLE" by simp_all
    moreover from \<open>Suc i \<le> k\<close> have "k - i = Suc (k - Suc i)" by simp
    ultimately show ?thesis by simp
  qed
qed

text \<open>
  The cumulative sums that the loop still has to form, on top of the counter \<open>c\<close>, fit a
  32-bit signed integer: then no addition of the loop wraps around.
\<close>

lemma sums_fit_head:
  assumes "\<forall>j<length (p # ps). state ((p # ps) ! j) = RUNNABLE \<longrightarrow>
      - (2 ^ 31) \<le> c + cum_tickets (p # ps) j \<and> c + cum_tickets (p # ps) j < 2 ^ 31"
    and "state p = RUNNABLE"
  shows "wrap32 (c + tickets p) = c + tickets p"
proof -
  from assms(1) have "state ((p # ps) ! 0) = RUNNABLE \<longrightarrow>
      - (2 ^ 31) \<le> c + cum_tickets (p # ps) 0 \<and> c + cum_tickets (p # ps) 0 < 2 ^ 31"
    by blast
  with assms(2) have "- (2 ^ 31) \<le> c + tickets p \<and> c + tickets p < 2 ^ 31"
    by (simp add: cum_tickets_0)
  then show ?thesis by (simp add: wrap32_id)
qed

lemma sums_fit_tail:
  assumes "\<forall>j<length (p # ps). state ((p # ps) ! j) = RUNNABLE \<longrightarrow>
      - (2 ^ 31) \<le> c + cum_tickets (p # ps) j \<and> c + cum_tickets (p # ps) j < 2 ^ 31"
  shows "\<forall>j<length ps. state (ps ! j) = RUNNABLE \<longrightarrow>
      - (2 ^ 31) \<le> c + (if state p = RUNNABLE then tickets p else 0) + cum_tickets ps j \<and>
      c + (if state p = RUNNABLE then tickets p else 0) + cum_tickets ps j < 2 ^ 31"
proof (intro allI impI)
  fix j assume j: "j < length ps" "state (ps ! j) = RUNNABLE"
  from assms have "Suc j < length (p # ps) \<longrightarrow> (state ((p # ps) ! Suc j) = RUNNABLE \<longrightarrow>
      - (2 ^ 31) \<le> c + cum_tickets (p # ps) (Suc j) \<and> c + cum_tickets (p # ps) (Suc j) < 2 ^ 31)"
    by blast
  with j have "- (2 ^ 31) \<le> c + cum_tickets (p # ps) (Suc j) \<and>
      c + cum_tickets (p # ps) (Suc j) < 2 ^ 31" by simp
  then show "- (2 ^ 31) \<le> c + (if state p = RUNNABLE then tickets p else 0) + cum_tickets ps j \<and>
      c + (if state p = RUNNABLE then tickets p else 0) + cum_tickets ps j < 2 ^ 31"
    by (simp add: cum_tickets_Suc add.assoc)
qed

lemma tickets_sum_loop_fit:
  "\<forall>j<length ps. state (ps ! j) = RUNNABLE \<longrightarrow>
      - (2 ^ 31) \<le> c + cum_tickets ps j \<and> c + cum_tickets ps j < 2 ^ 31 \<Longrightarrow>
   tickets_sum_loop ps c = c + runnable_total ps"
proof (induction ps arbitrary: c)
  case Nil
  then show ?case by (simp add: runnable_total_def)
next
  case (Cons p ps)
  note tl = sums_fit_tail [OF Cons.prems]
  show ?case
  proof (cases "state p = RUNNABLE")
    case True
    from sums_fit_head [OF Cons.prems True] Cons.IH [of "c + tickets p"] tl True
    show ?thesis by (simp add: runnable_total_Cons)
  next
    case False
    with Cons.IH [of c] tl show ?thesis by (simp add: runnable_total_Cons)
  qed
qed

lemma scheduler_loop_fit_Some:
  "\<forall>j<length ps. state (ps ! j) = RUNNABLE \<longrightarrow>
      - (2 ^ 31) \<le> c + cum_tickets ps j \<and> c + cum_tickets ps j < 2 ^ 31 \<Longrightarrow>
   scheduler_loop ps i c w = Some k \<Longrightarrow>
   \<exists>m<length ps. k = i + m \<and> state (ps ! m) = RUNNABLE \<and> w \<le> c + cum_tickets ps m \<and>
      (\<forall>j<m. state (ps ! j) = RUNNABLE \<longrightarrow> c + cum_tickets ps j < w)"
proof (induction ps arbitrary: i c)
  case Nil
  then show ?case by simp
next
  case (Cons p ps)
  note tl = sums_fit_tail [OF Cons.prems(1)]
  show ?case
  proof (cases "state p = RUNNABLE")
    case False
    from Cons.prems(2) False have "scheduler_loop ps (Suc i) c w = Some k" by simp
    from Cons.IH [OF _ this] tl False
    obtain m where m: "m < length ps" "k = Suc i + m" "state (ps ! m) = RUNNABLE"
      "w \<le> c + cum_tickets ps m"
      "\<forall>j<m. state (ps ! j) = RUNNABLE \<longrightarrow> c + cum_tickets ps j < w" by auto
    have "\<forall>j<Suc m. state ((p # ps) ! j) = RUNNABLE \<longrightarrow> c + cum_tickets (p # ps) j < w"
    proof (intro allI impI)
      fix j assume j: "j < Suc m" "state ((p # ps) ! j) = RUNNABLE"
      show "c + cum_tickets (p # ps) j < w"
      proof (cases j)
        case 0
        with j False show ?thesis by simp
      next
        case (Suc j')
        with j m(5) False show ?thesis by (simp add: cum_tickets_Suc)
      qed
    qed
    with m False show ?thesis
      by (intro exI [of _ "Suc m"]) (simp add: cum_tickets_Suc)
  next
    case True
    note w = sums_fit_head [OF Cons.prems(1) True]
    show ?thesis
    proof (cases "c + tickets p < w")
      case False
      with Cons.prems(2) True w have "k = i" by (simp add: Let_def)
      with True False show ?thesis
        by (intro exI [of _ 0]) (simp add: cum_tickets_0)
    next
      case lt: True
      with Cons.prems(2) True w
      have "scheduler_loop ps (Suc i) (c + tickets p) w = Some k" by (simp add: Let_def)
      from Cons.IH [OF _ this] tl True
      obtain m where m: "m < length ps" "k = Suc i + m" "state (ps ! m) = RUNNABLE"
        "w \<le> c + tickets p + cum_tickets ps m"
        "\<forall>j<m. state (ps ! j) = RUNNABLE \<longrightarrow> c + tickets p + cum_tickets ps j < w" by auto
      have "\<forall>j<Suc m. state ((p # ps) ! j) = RUNNABLE \<longrightarrow> c + cum_tickets (p # ps) j < w"
      proof (intro allI impI)
        fix j assume j: "j < Suc m" "state ((p # ps) ! j) = RUNNABLE"
        show "c + cum_tickets (p # ps) j < w"
        proof (cases j)
          case 0
          with lt True show ?thesis by (simp add: cum_tickets_0)
        next
          case (Suc j')
          with j m(5) have "c + tickets p + cum_tickets ps j' < w" by auto
          with Suc True show ?thesis by (simp add: cum_tickets_Suc)
        qed
      qed
      with m True show ?thesis
        by (intro exI [of _ "Suc m"]) (simp add: cum_tickets_Suc)
    qed
  qed
qed

lemma scheduler_loop_fit_None:
  "\<forall>j<length ps. state (ps ! j) = RUNNABLE \<longrightarrow>
      - (2 ^ 31) \<le> c + cum_tickets ps j \<and> c + cum_tickets ps j < 2 ^ 31 \<Longrightarrow>
   scheduler_loop ps i c w = None \<Longrightarrow>
   \<forall>j<length ps. state (ps ! j) = RUNNABLE \<longrightarrow> c + cum_tickets ps j < w"
proof (induction ps arbitrary: i c)
  case Nil
  then show ?case by simp
next
  case (Cons p ps)
  note tl = sums_fit_tail [OF Cons.prems(1)]
  show ?case
  proof (cases "state p = RUNNABLE")
    case False
    from Cons.prems(2) False have "scheduler_loop ps (Suc i) c w = None" by simp
    from Cons.IH [OF _ this] tl False
    have ih: "\<forall>j<length ps. state (ps ! j) = RUNNABLE \<longrightarrow> c + cum_tickets ps j < w" by simp
    show ?thesis
    proof (intro allI impI)
      fix j assume j: "j < length (p # ps)" "state ((p # ps) ! j) = RUNNABLE"
      show "c + cum_tickets (p # ps) j < w"
      proof (cases j)
        case 0
        with j False show ?thesis by simp
      next
        case (Suc j')
        with j ih False show ?thesis by (simp add: cum_tickets_Suc)
      qed
    qed
  next
    case True
    note w = sums_fit_head [OF Cons.prems(1) True]
    from Cons.prems(2) True w have lt: "c + tickets p < w"
      by (simp add: Let_def split: if_splits)
    with Cons.prems(2) True w
    have "scheduler_loop ps (Suc i) (c + tickets p) w = None" by (simp add: Let_def)
    from Cons.IH [OF _ this] tl True
    have ih: "\<forall>j<length ps. state (ps ! j) = RUNNABLE \<longrightarrow> c + tickets p + cum_tickets ps j < w"
      by simp
    show ?thesis
    proof (intro allI impI)
      fix j assume j: "j < length (p # ps)" "state ((p # ps) ! j) = RUNNABLE"
      show "c + cum_tickets (p # ps) j < w"
      proof (cases j)
        case 0
        with lt True show ?thesis by (simp add: cum_tickets_0)
      next
        case (Suc j')
        with j ih have "c + tickets p + cum_tickets ps j' < w" by auto
        with Suc True show ?thesis by (simp add: cum_tickets_Suc)
      qed
    qed
  qed
qed


text \<open>
  C3, as amended. In every pass the slot dispatched, if any, is a Runnable slot, and it
  is the only slot changed (to RUNNING); a slot in any other state is never dispatched.
  If moreover no cumulative ticket sum over the Runnable slots leaves the range of a
  32-bit signed integer, then \<open>tickets_sum\<close> is the sum of the tickets of exactly the
  Runnable slots, and for the winner drawn in the pass: the cumulative sum of the slot
  dispatched is at least the winner and no Runnable slot before it reaches the winner;
  when no slot is dispatched, no Runnable slot reaches the winner.
\<close>

theorem scheduler_dispatches_first_runnable_reaching_winner:
  "(case scheduler_pass random_at_most s of
      (Some i, s') \<Rightarrow>
        i < length (ptable s) \<and> state (ptable s ! i) = RUNNABLE \<and>
        s' = s\<lparr>ptable := (ptable s)[i := (ptable s ! i)\<lparr>state := RUNNING\<rparr>]\<rparr>
    | (None, s') \<Rightarrow> s' = s) \<and>
   ((\<forall>j<length (ptable s). state (ptable s ! j) = RUNNABLE \<longrightarrow>
        - (2 ^ 31) \<le> cum_tickets (ptable s) j \<and> cum_tickets (ptable s) j < 2 ^ 31) \<longrightarrow>
    tickets_sum s = runnable_total (ptable s) \<and>
    (case scheduler_pass random_at_most s of
       (Some i, s') \<Rightarrow>
         random_at_most (runnable_total (ptable s)) \<le> cum_tickets (ptable s) i \<and>
         (\<forall>j<i. state (ptable s ! j) = RUNNABLE \<longrightarrow>
                cum_tickets (ptable s) j < random_at_most (runnable_total (ptable s)))
     | (None, s') \<Rightarrow>
         (\<forall>j<length (ptable s). state (ptable s ! j) = RUNNABLE \<longrightarrow>
                cum_tickets (ptable s) j < random_at_most (runnable_total (ptable s)))))"
proof (intro conjI impI)
  show "case scheduler_pass random_at_most s of
      (Some i, s') \<Rightarrow>
        i < length (ptable s) \<and> state (ptable s ! i) = RUNNABLE \<and>
        s' = s\<lparr>ptable := (ptable s)[i := (ptable s ! i)\<lparr>state := RUNNING\<rparr>]\<rparr>
    | (None, s') \<Rightarrow> s' = s"
  proof (cases "scheduler_loop (ptable s) 0 0 (random_at_most (tickets_sum s))")
    case None
    then show ?thesis by (simp add: scheduler_pass_def Let_def)
  next
    case (Some k)
    from scheduler_loop_runnable [OF Some] Some show ?thesis
      by (simp add: scheduler_pass_def Let_def)
  qed
next
  assume fit: "\<forall>j<length (ptable s). state (ptable s ! j) = RUNNABLE \<longrightarrow>
        - (2 ^ 31) \<le> cum_tickets (ptable s) j \<and> cum_tickets (ptable s) j < 2 ^ 31"
  then have fit0: "\<forall>j<length (ptable s). state (ptable s ! j) = RUNNABLE \<longrightarrow>
        - (2 ^ 31) \<le> 0 + cum_tickets (ptable s) j \<and> 0 + cum_tickets (ptable s) j < 2 ^ 31"
    by simp
  from tickets_sum_loop_fit [OF fit0]
  show total: "tickets_sum s = runnable_total (ptable s)"
    by (simp add: tickets_sum_def)
  define w where "w = random_at_most (runnable_total (ptable s))"
  show "case scheduler_pass random_at_most s of
       (Some i, s') \<Rightarrow>
         random_at_most (runnable_total (ptable s)) \<le> cum_tickets (ptable s) i \<and>
         (\<forall>j<i. state (ptable s ! j) = RUNNABLE \<longrightarrow>
                cum_tickets (ptable s) j < random_at_most (runnable_total (ptable s)))
     | (None, s') \<Rightarrow>
         (\<forall>j<length (ptable s). state (ptable s ! j) = RUNNABLE \<longrightarrow>
                cum_tickets (ptable s) j < random_at_most (runnable_total (ptable s)))"
  proof (cases "scheduler_loop (ptable s) 0 0 w")
    case None
    from scheduler_loop_fit_None [OF fit0 None]
    have "\<forall>j<length (ptable s). state (ptable s ! j) = RUNNABLE \<longrightarrow> cum_tickets (ptable s) j < w"
      by simp
    with None total show ?thesis
      by (simp add: scheduler_pass_def Let_def w_def)
  next
    case (Some k)
    from scheduler_loop_fit_Some [OF fit0 Some]
    have "w \<le> cum_tickets (ptable s) k \<and>
      (\<forall>j<k. state (ptable s ! j) = RUNNABLE \<longrightarrow> cum_tickets (ptable s) j < w)"
      by simp
    with Some total show ?thesis
      by (simp add: scheduler_pass_def Let_def w_def)
  qed
qed

theorem scheduler_dispatches_first_runnable_reaching_winner_witness:
  "tickets_sum (mk_state sch_table) = 14 \<and>
   scheduler_pass (\<lambda>total. 9) (mk_state sch_table) =
     (Some 2, mk_state (sch_table[2 := (sch_table ! 2)\<lparr>state := RUNNING\<rparr>])) \<and>
   cum_tickets sch_table 0 = 5 \<and> cum_tickets sch_table 2 = 9 \<and>
   fst (scheduler_pass (\<lambda>total. 15) (mk_state sch_table)) = None"
proof -
  have fit: "\<forall>j<length (ptable (mk_state sch_table)).
      state (ptable (mk_state sch_table) ! j) = RUNNABLE \<longrightarrow>
        - (2 ^ 31) \<le> cum_tickets (ptable (mk_state sch_table)) j \<and>
        cum_tickets (ptable (mk_state sch_table)) j < 2 ^ 31"
    by (simp add: mk_state_def sch_table_def slot0_def cum_tickets_def runnable_total_def
        less_Suc_eq numeral_eq_Suc)
  have t: "runnable_total (ptable (mk_state sch_table)) = 14"
    by (simp add: mk_state_def sch_table_def slot0_def runnable_total_def)
  have c: "cum_tickets sch_table 0 = 5 \<and> cum_tickets sch_table 2 = 9"
    by (simp add: sch_table_def slot0_def cum_tickets_def runnable_total_def numeral_eq_Suc)
  have p9: "scheduler_pass (\<lambda>total. 9) (mk_state sch_table) =
     (Some 2, mk_state (sch_table[2 := (sch_table ! 2)\<lparr>state := RUNNING\<rparr>]))"
    by (simp add: scheduler_pass_def mk_state_def sch_table_def slot0_def wrap32_def Let_def)
  have p15: "fst (scheduler_pass (\<lambda>total. 15) (mk_state sch_table)) = None"
    by (simp add: scheduler_pass_def mk_state_def sch_table_def slot0_def wrap32_def Let_def)
  from scheduler_dispatches_first_runnable_reaching_winner
    [where random_at_most = "\<lambda>total. 9" and s = "mk_state sch_table",
      THEN conjunct2, THEN mp, OF fit] t
  have "tickets_sum (mk_state sch_table) = 14" by simp
  with c p9 p15 show ?thesis by simp
qed

text \<open>
  Without the condition on the range the claim fails. Slot 0 sets its tickets to
  2147483646 (\<open>settickets\<close> accepts every count from 1 on) and is Runnable again. The
  tickets of the Runnable slots add up to 2147483655, but \<open>tickets_sum\<close> wraps around to
  -2147483641; and with the winner 2147483647 the counter wraps around at slot 2, whose
  cumulative sum 2147483650 is the first to reach the winner: the pass dispatches nobody.
\<close>

theorem scheduler_sum_wraps_and_skips_winner:
  "settickets 0 2147483646 (mk_state sch_table) = (0, sch_big) \<and>
   map state (ptable sch_big) = [RUNNABLE, EMBRYO, RUNNABLE, RUNNABLE] \<and>
   map tickets (ptable sch_big) = [2147483646, 100, 4, 5] \<and>
   runnable_total (ptable sch_big) = 2147483655 \<and>
   tickets_sum sch_big = - 2147483641 \<and>
   cum_tickets (ptable sch_big) 0 = 2147483646 \<and>
   cum_tickets (ptable sch_big) 2 = 2147483650 \<and>
   scheduler_pass (\<lambda>total. 2147483647) sch_big = (None, sch_big)"
  by (simp add: sch_big_def settickets_def scheduler_pass_def tickets_sum_def mk_state_def
      sch_table_def slot0_def wrap32_def cum_tickets_def runnable_total_def Let_def
      numeral_eq_Suc)

text \<open>
  The same with a winner that lies below the total the code computes: the total wraps
  around to 108, the winner is 50, slot 1 is the first whose cumulative sum reaches it,
  and the pass dispatches slot 3.
\<close>

lemma scheduler_wrapped_total_dispatches_later_slot:
  "tickets_sum (mk_state sch_wrap_table) = 108 \<and>
   cum_tickets sch_wrap_table 0 = 10 \<and>
   cum_tickets sch_wrap_table 1 = 2147483657 \<and>
   scheduler_pass (\<lambda>total. 50) (mk_state sch_wrap_table) =
     (Some 3, mk_state (sch_wrap_table[3 := (sch_wrap_table ! 3)\<lparr>state := RUNNING\<rparr>]))"
  by (simp add: scheduler_pass_def tickets_sum_def mk_state_def
      sch_wrap_table_def slot0_def wrap32_def cum_tickets_def runnable_total_def Let_def
      numeral_eq_Suc)

subsection \<open>allocproc, fork, clone: failures\<close>

lemma find_unused_Some:
  "find_unused ps i = Some k \<Longrightarrow> i \<le> k \<and> k - i < length ps \<and> state (ps ! (k - i)) = UNUSED"
proof (induction ps arbitrary: i)
  case Nil
  then show ?case by simp
next
  case (Cons p ps)
  show ?case
  proof (cases "state p = UNUSED")
    case True
    with Cons.prems show ?thesis by simp
  next
    case False
    with Cons.prems have "find_unused ps (Suc i) = Some k" by simp
    from Cons.IH [OF this] have "Suc i \<le> k" "k - Suc i < length ps"
      "state (ps ! (k - Suc i)) = UNUSED" by simp_all
    moreover from \<open>Suc i \<le> k\<close> have "k - i = Suc (k - Suc i)" by simp
    ultimately show ?thesis by simp
  qed
qed

text \<open>
  A failing \<open>allocproc\<close> leaves every slot in the state it had, and every slot in use
  (the caller's among them) exactly as it was; it calls neither \<open>kfree\<close> nor \<open>freevm\<close>.
\<close>

lemma allocproc_failure:
  assumes "allocproc ka s = (None, s')"
  shows "map state (ptable s') = map state (ptable s) \<and>
    (\<forall>j<length (ptable s). state (ptable s ! j) \<noteq> UNUSED \<longrightarrow> ptable s' ! j = ptable s ! j) \<and>
    kfrees s' = kfrees s \<and> vmfrees s' = vmfrees s \<and> ustores s' = ustores s"
proof (cases "find_unused (ptable s) 0")
  case None
  with assms show ?thesis by (simp add: allocproc_def)
next
  case (Some i)
  from find_unused_Some [OF Some]
  have i: "i < length (ptable s)" "state (ptable s ! i) = UNUSED" by simp_all
  from assms Some have ka: "ka = 0"
    by (simp add: allocproc_def Let_def split: if_splits)
  with assms Some have s': "s' = s\<lparr>nextpid := wrap32 (nextpid s + 1),
      ptable := (ptable s)[i := (ptable s ! i)\<lparr>state := EMBRYO, pid := nextpid s, tickets := 1,
         ticks := 0, kstack := 0, state := UNUSED\<rparr>]\<rparr>"
    by (simp add: allocproc_def Let_def)
  have "map state (ptable s') = map state (ptable s)"
    using i by (simp add: s' map_update list_update_same_conv)
  moreover have "\<forall>j<length (ptable s). state (ptable s ! j) \<noteq> UNUSED \<longrightarrow> ptable s' ! j = ptable s ! j"
    using i by (auto simp: s' nth_list_update)
  ultimately show ?thesis by (simp add: s')
qed

text \<open>
  \<open>fork\<close> fails when there is no free slot, when \<open>kalloc\<close> fails and when \<open>copyuvm\<close> fails.
  It then returns -1, every slot is in the state it had, every slot in use is exactly as
  it was, and a kernel stack that was allocated has been passed to \<open>kfree\<close>.
\<close>

lemma fork_failure_releases:
  assumes "find_unused (ptable s) 0 = None \<or> ka = 0 \<or> cu = 0"
  shows "\<exists>s'. fork ka cu c s = (- 1, s') \<and>
    map state (ptable s') = map state (ptable s) \<and>
    (\<forall>j<length (ptable s). state (ptable s ! j) \<noteq> UNUSED \<longrightarrow> ptable s' ! j = ptable s ! j) \<and>
    kfrees s' = kfrees s @ (if find_unused (ptable s) 0 \<noteq> None \<and> ka \<noteq> 0 then [ka] else []) \<and>
    vmfrees s' = vmfrees s"
proof (cases "find_unused (ptable s) 0 = None \<or> ka = 0")
  case True
  then have "fst (allocproc ka s) = None"
    by (cases "find_unused (ptable s) 0") (auto simp: allocproc_def Let_def)
  then obtain s1 where a: "allocproc ka s = (None, s1)"
    by (cases "allocproc ka s") simp
  have f: "fork ka cu c s = (- 1, s1)"
    by (simp add: fork_def a)
  from True have "(if find_unused (ptable s) 0 \<noteq> None \<and> ka \<noteq> 0 then [ka] else []) = []"
    by auto
  with allocproc_failure [OF a] f show ?thesis
    by simp
next
  case False
  with assms have cu: "cu = 0" by blast
  from False obtain i where Some: "find_unused (ptable s) 0 = Some i" and ka: "ka \<noteq> 0" by auto
  from find_unused_Some [OF Some]
  have i: "i < length (ptable s)" "state (ptable s ! i) = UNUSED" by simp_all
  define s' where "s' = snd (fork ka cu c s)"
  have f: "fork ka cu c s = (- 1, s')"
    using Some ka cu by (simp add: s'_def fork_def allocproc_def Let_def)
  have tab: "ptable s' = (ptable s)[i := (ptable s ! i)\<lparr>state := EMBRYO, pid := nextpid s,
      tickets := 1, ticks := 0, kstack := ka, pgdir := 0, kstack := 0, state := UNUSED\<rparr>]"
    using Some ka cu i by (simp add: s'_def fork_def allocproc_def Let_def)
  have kf: "kfrees s' = kfrees s @ [ka]" and vf: "vmfrees s' = vmfrees s"
    using Some ka cu i by (simp_all add: s'_def fork_def allocproc_def Let_def)
  have "map state (ptable s') = map state (ptable s)"
    using i by (simp add: tab map_update list_update_same_conv)
  moreover have "\<forall>j<length (ptable s). state (ptable s ! j) \<noteq> UNUSED \<longrightarrow> ptable s' ! j = ptable s ! j"
    using i by (auto simp: tab nth_list_update)
  ultimately show ?thesis using f kf vf Some ka by simp
qed

text \<open>
  C2. The claim holds for \<open>allocproc\<close> and \<open>fork\<close> (the two lemmas above) and fails for
  \<open>clone\<close>: when \<^verbatim>\<open>copyout\<close> fails, \<open>clone\<close> returns -1 at once. Here the caller (slot 1)
  passes a page-aligned stack inside its memory, slot 2 is free and \<^verbatim>\<open>kalloc\<close> returns
  page 300; after the failed call slot 2 is still EMBRYO with the caller as parent, and
  its kernel stack 300 has not been passed to \<open>kfree\<close>.
\<close>

theorem clone_copyout_failure_keeps_slot:
  "find_unused (ptable (mk_state cl_table)) 0 = Some 2 \<and>
   clone 300 (- 1) 1 0x10 1 2 0x2000 (mk_state cl_table) =
     (- 1, (mk_state cl_table)
        \<lparr>nextpid := 11,
         ptable := cl_table[2 := slot0\<lparr>state := EMBRYO, pid := 10, tickets := 1, kstack := 300,
                     pgdir := 101, sz := 0x3000, parent := ProcAddr 1\<rparr>]\<rparr>) \<and>
   kfrees (snd (clone 300 (- 1) 1 0x10 1 2 0x2000 (mk_state cl_table))) = []"
  by (simp add: clone_def allocproc_def PGSIZE_def wrap32_def mk_state_def cl_table_def
      slot0_def Let_def)

subsection \<open>settickets and the stack check of clone\<close>

lemma settickets_rejects: "n < 1 \<Longrightarrow> settickets c n s = (- 1, s)"
  by (simp add: settickets_def)

lemma settickets_sets:
  "1 \<le> n \<Longrightarrow> c < length (ptable s) \<Longrightarrow>
   fst (settickets c n s) = 0 \<and>
   tickets (ptable (snd (settickets c n s)) ! c) = n \<and>
   ps_tickets (snd (getpinfo (snd (settickets c n s)))) ! c = n"
  by (simp add: settickets_def getpinfo_def)

lemma clone_rejects_misaligned:
  "stack mod PGSIZE \<noteq> 0 \<Longrightarrow> clone ka co c fcn arg1 arg2 stack s = (- 1, s)"
  by (simp add: clone_def Let_def)

lemma clone_rejects_beyond_sz:
  assumes "unat stack + unat PGSIZE < 2 ^ 32"
    and "unat (sz (ptable s ! c)) < unat stack + unat PGSIZE"
  shows "clone ka co c fcn arg1 arg2 stack s = (- 1, s)"
proof -
  from assms(1) have "unat PGSIZE + unat stack < 2 ^ LENGTH(32)"
    by simp
  then have "unat (PGSIZE + stack) = unat PGSIZE + unat stack"
    by (rule unat_add_lem [THEN iffD1])
  with assms(2) have "unat (sz (ptable s ! c)) < unat (PGSIZE + stack)"
    by simp
  then have "sz (ptable s ! c) < PGSIZE + stack"
    by (simp only: word_less_nat_alt)
  then show ?thesis by (simp add: clone_def Let_def)
qed

text \<open>
  C7. \<open>settickets\<close> does what the claim says (the two lemmas above), and \<open>clone\<close> rejects a
  misaligned stack and a stack page that ends beyond \<open>sz\<close> as long as the sum
  \<^verbatim>\<open>PGSIZE + (uint) stack\<close> does not wrap around. For the page-aligned stack
  \<open>0xFFFFF000\<close> the sum is \<open>0\<close>: the page lies far outside the three pages of the caller
  (slot 1), the check passes all the same, and \<open>clone\<close> goes on to \<open>allocproc\<close>, which
  takes slot 2 and gives it pid 10. The call returns -1 (from the failing
  \<^verbatim>\<open>copyout\<close>) with the table changed.
\<close>

theorem clone_stack_check_wraps:
  "(0xFFFFF000 :: 32 word) mod PGSIZE = 0 \<and>
   unat (sz (ptable (mk_state cl_table) ! 1)) < unat (0xFFFFF000 :: 32 word) + unat PGSIZE \<and>
   clone 300 (- 1) 1 0x10 1 2 0xFFFFF000 (mk_state cl_table) =
     (- 1, (mk_state cl_table)
        \<lparr>nextpid := 11,
         ptable := cl_table[2 := slot0\<lparr>state := EMBRYO, pid := 10, tickets := 1, kstack := 300,
                     pgdir := 101, sz := 0x3000, parent := ProcAddr 1\<rparr>]\<rparr>) \<and>
   snd (clone 300 (- 1) 1 0x10 1 2 0xFFFFF000 (mk_state cl_table)) \<noteq> mk_state cl_table"
  by (simp add: clone_def allocproc_def PGSIZE_def wrap32_def mk_state_def cl_table_def
      slot0_def Let_def)

subsection \<open>wait\<close>

lemma wait_loop_found:
  "k < length ps \<Longrightarrow> parent (ps ! k) = cur \<Longrightarrow> state (ps ! k) = ZOMBIE \<Longrightarrow>
   \<forall>j<k. \<not> (parent (ps ! j) = cur \<and> state (ps ! j) = ZOMBIE) \<Longrightarrow>
   wait_loop ps i cur hk = Inl (i + k)"
proof (induction ps arbitrary: i k hk)
  case Nil
  then show ?case by simp
next
  case (Cons p ps)
  show ?case
  proof (cases k)
    case 0
    with Cons.prems show ?thesis by simp
  next
    case (Suc m)
    from Cons.prems(4) Suc have hd: "\<not> (parent p = cur \<and> state p = ZOMBIE)" by auto
    from Cons.prems Suc have m: "m < length ps" "parent (ps ! m) = cur" "state (ps ! m) = ZOMBIE"
      by simp_all
    from Cons.prems(4) Suc have "\<forall>j<m. \<not> (parent (ps ! j) = cur \<and> state (ps ! j) = ZOMBIE)"
      by auto
    from Cons.IH [OF m this] hd Suc show ?thesis by simp
  qed
qed

lemma wait_loop_none:
  "\<forall>j<length ps. \<not> (parent (ps ! j) = cur \<and> state (ps ! j) = ZOMBIE) \<Longrightarrow>
   wait_loop ps i cur hk = Inr (hk \<or> (\<exists>j<length ps. parent (ps ! j) = cur))"
proof (induction ps arbitrary: i hk)
  case Nil
  then show ?case by simp
next
  case (Cons p ps)
  from Cons.prems have hd: "\<not> (parent p = cur \<and> state p = ZOMBIE)" by auto
  from Cons.prems have tl: "\<forall>j<length ps. \<not> (parent (ps ! j) = cur \<and> state (ps ! j) = ZOMBIE)"
    by auto
  have ex: "(\<exists>j<Suc (length ps). parent ((p # ps) ! j) = cur) \<longleftrightarrow>
      parent p = cur \<or> (\<exists>j<length ps. parent (ps ! j) = cur)"
    by (auto simp: less_Suc_eq_0_disj)
  show ?case
  proof (cases "parent p = cur")
    case True
    with hd have "state p \<noteq> ZOMBIE" by simp
    with True Cons.IH [OF tl, of "Suc i" True] show ?thesis
      by (simp add: ex)
  next
    case False
    with Cons.IH [OF tl, of "Suc i" hk] show ?thesis
      by (simp add: ex)
  qed
qed

lemma wait_loop_Inl:
  "wait_loop ps i cur hk = Inl m \<Longrightarrow>
   i \<le> m \<and> m - i < length ps \<and> parent (ps ! (m - i)) = cur \<and> state (ps ! (m - i)) = ZOMBIE"
proof (induction ps arbitrary: i hk)
  case Nil
  then show ?case by simp
next
  case (Cons p ps)
  show ?case
  proof (cases "parent p = cur \<and> state p = ZOMBIE")
    case True
    with Cons.prems show ?thesis by simp
  next
    case False
    with Cons.prems obtain hk' where "wait_loop ps (Suc i) cur hk' = Inl m"
      by (auto split: if_splits)
    from Cons.IH [OF this] have "Suc i \<le> m" "m - Suc i < length ps"
      "parent (ps ! (m - Suc i)) = cur" "state (ps ! (m - Suc i)) = ZOMBIE" by simp_all
    moreover from \<open>Suc i \<le> m\<close> have "m - i = Suc (m - Suc i)" by simp
    ultimately show ?thesis by simp
  qed
qed

text \<open>
  C4, as amended. If some slot has the caller as parent and is a Zombie, \<open>wait\<close> takes the
  first such slot in table order: it passes the slot's kernel stack to \<open>kfree\<close> and its
  page directory to \<open>freevm\<close>, clears \<open>kstack\<close>, \<open>pid\<close>, \<open>parent\<close>, \<open>name\<close> and \<open>killed\<close>,
  sets the state to UNUSED and returns the pid the slot had; in the resulting table the
  scan of a later \<open>wait\<close> of the same caller does not stop at that slot again. If no slot
  has the caller as parent, \<open>wait\<close> returns -1 and changes nothing. If the caller's
  \<open>killed\<close> flag is set and no slot with the caller as parent is a Zombie, \<open>wait\<close> returns
  -1 and changes nothing.
\<close>

theorem wait_reaps_zombie_child_or_fails:
  "(\<forall>k. k < length (ptable s) \<and> parent (ptable s ! k) = ProcAddr c \<and>
        state (ptable s ! k) = ZOMBIE \<and>
        (\<forall>j<k. \<not> (parent (ptable s ! j) = ProcAddr c \<and> state (ptable s ! j) = ZOMBIE)) \<longrightarrow>
      wait cp c env s =
        Returns (pid (ptable s ! k))
          (s\<lparr>kfrees := kfrees s @ [kstack (ptable s ! k)],
             vmfrees := vmfrees s @ [pgdir (ptable s ! k)],
             ptable := (ptable s)[k := (ptable s ! k)\<lparr>kstack := 0, pid := 0, parent := Null,
                name := [], killed := 0, state := UNUSED\<rparr>]\<rparr>) \<and>
      wait_loop ((ptable s)[k := (ptable s ! k)\<lparr>kstack := 0, pid := 0, parent := Null,
                name := [], killed := 0, state := UNUSED\<rparr>]) 0 (ProcAddr c) False \<noteq> Inl k) \<and>
   ((\<forall>j<length (ptable s). parent (ptable s ! j) \<noteq> ProcAddr c) \<longrightarrow>
      wait cp c env s = Returns (- 1) s) \<and>
   (killed (ptable s ! c) \<noteq> 0 \<and>
    (\<forall>j<length (ptable s). \<not> (parent (ptable s ! j) = ProcAddr c \<and> state (ptable s ! j) = ZOMBIE)) \<longrightarrow>
      wait cp c env s = Returns (- 1) s)"
proof (intro conjI allI impI)
  fix k
  assume h: "k < length (ptable s) \<and> parent (ptable s ! k) = ProcAddr c \<and>
        state (ptable s ! k) = ZOMBIE \<and>
        (\<forall>j<k. \<not> (parent (ptable s ! j) = ProcAddr c \<and> state (ptable s ! j) = ZOMBIE))"
  then have "wait_loop (ptable s) 0 (ProcAddr c) False = Inl (0 + k)"
    by (intro wait_loop_found) simp_all
  then show "wait cp c env s =
        Returns (pid (ptable s ! k))
          (s\<lparr>kfrees := kfrees s @ [kstack (ptable s ! k)],
             vmfrees := vmfrees s @ [pgdir (ptable s ! k)],
             ptable := (ptable s)[k := (ptable s ! k)\<lparr>kstack := 0, pid := 0, parent := Null,
                name := [], killed := 0, state := UNUSED\<rparr>]\<rparr>)"
    by (simp add: wait_reap_def Let_def)
  show "wait_loop ((ptable s)[k := (ptable s ! k)\<lparr>kstack := 0, pid := 0, parent := Null,
                name := [], killed := 0, state := UNUSED\<rparr>]) 0 (ProcAddr c) False \<noteq> Inl k"
  proof
    assume "wait_loop ((ptable s)[k := (ptable s ! k)\<lparr>kstack := 0, pid := 0, parent := Null,
                name := [], killed := 0, state := UNUSED\<rparr>]) 0 (ProcAddr c) False = Inl k"
    from wait_loop_Inl [OF this] h show False by simp
  qed
next
  assume "\<forall>j<length (ptable s). parent (ptable s ! j) \<noteq> ProcAddr c"
  then have "wait_loop (ptable s) 0 (ProcAddr c) False = Inr False"
    by (subst wait_loop_none) auto
  then show "wait cp c env s = Returns (- 1) s" by simp
next
  assume h: "killed (ptable s ! c) \<noteq> 0 \<and>
    (\<forall>j<length (ptable s). \<not> (parent (ptable s ! j) = ProcAddr c \<and> state (ptable s ! j) = ZOMBIE))"
  then have "wait_loop (ptable s) 0 (ProcAddr c) False =
      Inr (False \<or> (\<exists>j<length (ptable s). parent (ptable s ! j) = ProcAddr c))"
    by (intro wait_loop_none) simp
  with h show "wait cp c env s = Returns (- 1) s" by simp
qed

text \<open>
  The claim as it is written also promises -1 whenever the caller's \<open>killed\<close> flag is
  set. The caller of slot 1 is killed and has a Zombie child in slot 3: \<open>wait\<close> returns
  the child's pid 4.
\<close>

theorem wait_killed_caller_still_reaps:
  "killed (ptable (mk_state w_table) ! 1) = 1 \<and>
   wait ok_cpu 1 [] (mk_state w_table) =
     Returns 4 ((mk_state w_table)\<lparr>kfrees := [203], vmfrees := [103],
        ptable := w_table[3 := (w_table ! 3)\<lparr>kstack := 0, pid := 0, parent := Null,
                name := [], killed := 0, state := UNUSED\<rparr>]\<rparr>) \<and>
   wait ok_cpu 1 [] (mk_state w_table) \<noteq> Returns (- 1) (mk_state w_table)"
  by (simp add: wait_reap_def mk_state_def w_table_def slot0_def Let_def)

theorem wait_reaps_zombie_child_or_fails_witness:
  "wait ok_cpu 1 [] (mk_state w_table) =
     Returns 4 ((mk_state w_table)\<lparr>kfrees := [203], vmfrees := [103],
        ptable := w_table[3 := (w_table ! 3)\<lparr>kstack := 0, pid := 0, parent := Null,
                name := [], killed := 0, state := UNUSED\<rparr>]\<rparr>) \<and>
   wait ok_cpu 4 [] (mk_state w_table) = Returns (- 1) (mk_state w_table) \<and>
   wait ok_cpu 1 [] (mk_state (take 3 w_table)) = Returns (- 1) (mk_state (take 3 w_table))"
proof -
  let ?s = "mk_state w_table"
  have a: "3 < length (ptable ?s) \<and> parent (ptable ?s ! 3) = ProcAddr 1 \<and>
      state (ptable ?s ! 3) = ZOMBIE \<and>
      (\<forall>j<3. \<not> (parent (ptable ?s ! j) = ProcAddr 1 \<and> state (ptable ?s ! j) = ZOMBIE))"
    by (simp add: mk_state_def w_table_def slot0_def less_Suc_eq numeral_eq_Suc)
  from wait_reaps_zombie_child_or_fails [of ?s 1 ok_cpu "[]", THEN conjunct1, THEN spec, THEN mp, OF a]
  have r1: "wait ok_cpu 1 [] ?s =
     Returns 4 (?s\<lparr>kfrees := [203], vmfrees := [103],
        ptable := w_table[3 := (w_table ! 3)\<lparr>kstack := 0, pid := 0, parent := Null,
                name := [], killed := 0, state := UNUSED\<rparr>]\<rparr>)"
    by (simp add: mk_state_def w_table_def slot0_def)
  have b: "\<forall>j<length (ptable ?s). parent (ptable ?s ! j) \<noteq> ProcAddr 4"
    by (simp add: mk_state_def w_table_def slot0_def less_Suc_eq numeral_eq_Suc)
  from wait_reaps_zombie_child_or_fails [of ?s 4 ok_cpu "[]", THEN conjunct2, THEN conjunct1,
      THEN mp, OF b]
  have r2: "wait ok_cpu 4 [] ?s = Returns (- 1) ?s" .
  let ?t = "mk_state (take 3 w_table)"
  have c: "killed (ptable ?t ! 1) \<noteq> 0 \<and>
    (\<forall>j<length (ptable ?t). \<not> (parent (ptable ?t ! j) = ProcAddr 1 \<and> state (ptable ?t ! j) = ZOMBIE))"
    by (simp add: mk_state_def w_table_def slot0_def less_Suc_eq numeral_eq_Suc)
  from wait_reaps_zombie_child_or_fails [of ?t 1 ok_cpu "[]", THEN conjunct2, THEN conjunct2,
      THEN mp, OF c]
  have r3: "wait ok_cpu 1 [] ?t = Returns (- 1) ?t" .
  from r1 r2 r3 show ?thesis by simp
qed

subsection \<open>join\<close>

lemma join_loop_found:
  "k < length ps \<Longrightarrow> parent (ps ! k) = cur \<Longrightarrow> pgdir (ps ! k) = pg \<Longrightarrow>
   state (ps ! k) = ZOMBIE \<Longrightarrow>
   \<forall>j<k. \<not> (parent (ps ! j) = cur \<and> pgdir (ps ! j) = pg \<and> state (ps ! j) = ZOMBIE) \<Longrightarrow>
   join_loop ps i cur pg ht = Inl (i + k)"
proof (induction ps arbitrary: i k ht)
  case Nil
  then show ?case by simp
next
  case (Cons p ps)
  show ?case
  proof (cases k)
    case 0
    with Cons.prems show ?thesis by simp
  next
    case (Suc m)
    from Cons.prems(5) Suc
    have hd: "\<not> (parent p = cur \<and> pgdir p = pg \<and> state p = ZOMBIE)" by auto
    from Cons.prems Suc have m: "m < length ps" "parent (ps ! m) = cur" "pgdir (ps ! m) = pg"
      "state (ps ! m) = ZOMBIE" by simp_all
    from Cons.prems(5) Suc
    have "\<forall>j<m. \<not> (parent (ps ! j) = cur \<and> pgdir (ps ! j) = pg \<and> state (ps ! j) = ZOMBIE)"
      by auto
    from Cons.IH [OF m this] hd Suc show ?thesis by auto
  qed
qed

lemma join_loop_no_threads:
  "\<forall>j<length ps. parent (ps ! j) = cur \<longrightarrow> pgdir (ps ! j) \<noteq> pg \<Longrightarrow>
   join_loop ps i cur pg ht = Inr ht"
proof (induction ps arbitrary: i)
  case Nil
  then show ?case by simp
next
  case (Cons p ps)
  from Cons.prems have "parent p = cur \<longrightarrow> pgdir p \<noteq> pg" by auto
  moreover from Cons.prems have "\<forall>j<length ps. parent (ps ! j) = cur \<longrightarrow> pgdir (ps ! j) \<noteq> pg"
    by auto
  ultimately show ?case using Cons.IH by auto
qed

text \<open>
  What \<open>join\<close> does get right: it takes the first Zombie slot that has the caller as
  parent and the caller's page directory, returns its pid, passes its kernel stack (and
  nothing else) to \<open>kfree\<close>, never calls \<open>freevm\<close>, and makes the slot UNUSED.
\<close>

lemma join_reaps_thread:
  assumes "k < length (ptable s)" and "parent (ptable s ! k) = ProcAddr c"
    and "pgdir (ptable s ! k) = pgdir (ptable s ! c)" and "state (ptable s ! k) = ZOMBIE"
    and "\<forall>j<k. \<not> (parent (ptable s ! j) = ProcAddr c \<and> pgdir (ptable s ! j) = pgdir (ptable s ! c) \<and>
            state (ptable s ! j) = ZOMBIE)"
  shows "join cp c stack env s =
     Returns (pid (ptable s ! k))
       (s\<lparr>kfrees := kfrees s @ [kstack (ptable s ! k)],
          ptable := (ptable s)[k := (ptable s ! k)\<lparr>kstack := 0, pid := 0, parent := Null,
             name := [], killed := 0, state := UNUSED, threadstack := 0\<rparr>]\<rparr>)"
proof -
  from assms have "join_loop (ptable s) 0 (ProcAddr c) (pgdir (ptable s ! c)) False = Inl (0 + k)"
    by (intro join_loop_found) simp_all
  with assms(1) show ?thesis
    by (simp add: join_reap_def Let_def)
qed

text \<open>
  A child with an address space of its own is never joined: when no slot has both the
  caller as parent and the caller's page directory, \<open>join\<close> returns -1 and changes nothing.
\<close>

lemma join_ignores_children:
  assumes "\<forall>j<length (ptable s). parent (ptable s ! j) = ProcAddr c \<longrightarrow>
      pgdir (ptable s ! j) \<noteq> pgdir (ptable s ! c)"
  shows "join cp c stack env s = Returns (- 1) s"
proof -
  from assms have "join_loop (ptable s) 0 (ProcAddr c) (pgdir (ptable s ! c)) False = Inr False"
    by (rule join_loop_no_threads)
  then show ?thesis by simp
qed

text \<open>
  C1. \<open>join\<close> frees only the kernel stack and returns the pid, but the stack handle does
  not reach the caller. The caller (slot 1) passes the address \<open>0x1000\<close> of its variable;
  the Zombie thread in slot 4 has the stack handle \<open>0x2000\<close>. \<open>join\<close> returns the pid 5
  with the kernel stack 204 freed and no page directory freed; the handle is erased from
  the slot and nothing has been stored in user memory (\<open>ustores\<close> is as empty as before).
\<close>

theorem join_loses_stack_handle:
  "threadstack (ptable (mk_state w_table) ! 4) = 0x2000 \<and>
   ustores (mk_state w_table) = [] \<and>
   join ok_cpu 1 0x1000 [] (mk_state w_table) =
     Returns 5
       \<lparr>ptable = w_table[4 := (w_table ! 4)\<lparr>kstack := 0, pid := 0, parent := Null, name := [],
                   killed := 0, state := UNUSED, threadstack := 0\<rparr>],
        initproc = ProcAddr 0, nextpid = 10, kfrees = [204], vmfrees = [], ustores = []\<rparr>"
  by (simp add: join_reap_def mk_state_def w_table_def slot0_def Let_def)

subsection \<open>exit\<close>

lemma exit_step_frame:
  "length (ptable (exit_step c s i)) = length (ptable s) \<and>
   exit_step c s i = s\<lparr>ptable := ptable (exit_step c s i)\<rparr>"
  by (simp add: exit_step_def wakeup1_def Let_def length_wakeup1_loop)

lemma exit_step_nth:
  assumes "i < length (ptable s)" and "j < length (ptable s)"
  shows "parent (ptable (exit_step c s i) ! j) =
      (if j = i \<and> parent (ptable s ! i) = ProcAddr c then initproc s else parent (ptable s ! j))"
    and "chan (ptable (exit_step c s i) ! j) = chan (ptable s ! j)"
    and "state (ptable (exit_step c s i) ! j) =
      (if parent (ptable s ! i) = ProcAddr c \<and> state (ptable s ! i) = ZOMBIE \<and>
          state (ptable s ! j) = SLEEPING \<and> chan (ptable s ! j) = initproc s
       then RUNNABLE else state (ptable s ! j))"
  using assms
  by (auto simp: exit_step_def wakeup1_def Let_def nth_wakeup1_loop nth_list_update)

lemma exit_loop_frame:
  "length (ptable (exit_loop c n s)) = length (ptable s) \<and>
   exit_loop c n s = s\<lparr>ptable := ptable (exit_loop c n s)\<rparr>"
proof (induction n)
  case 0
  show ?case by simp
next
  case (Suc n)
  from exit_step_frame [of c "exit_loop c n s" n] Suc show ?case
    by (metis exit_loop.simps(2) kstate.surjective kstate.update_convs(1))
qed

lemma exit_loop_nth:
  "n \<le> length (ptable s) \<Longrightarrow>
   \<forall>j<length (ptable s).
     parent (ptable (exit_loop c n s) ! j) =
       (if j < n \<and> parent (ptable s ! j) = ProcAddr c then initproc s
        else parent (ptable s ! j)) \<and>
     chan (ptable (exit_loop c n s) ! j) = chan (ptable s ! j) \<and>
     state (ptable (exit_loop c n s) ! j) =
       (if (\<exists>i<n. parent (ptable s ! i) = ProcAddr c \<and> state (ptable s ! i) = ZOMBIE) \<and>
           state (ptable s ! j) = SLEEPING \<and> chan (ptable s ! j) = initproc s
        then RUNNABLE else state (ptable s ! j))"
proof (induction n)
  case 0
  show ?case by simp
next
  case (Suc n)
  define t where "t = exit_loop c n s"
  from Suc.prems have n: "n < length (ptable s)" by simp
  from exit_loop_frame [of c n s] have len: "length (ptable t) = length (ptable s)"
    and fr: "t = s\<lparr>ptable := ptable t\<rparr>" by (simp_all add: t_def)
  from fr have init: "initproc t = initproc s"
    by (metis kstate.select_convs(2) kstate.surjective kstate.update_convs(1))
  from Suc.IH n have ih: "\<forall>j<length (ptable s).
     parent (ptable t ! j) =
       (if j < n \<and> parent (ptable s ! j) = ProcAddr c then initproc s
        else parent (ptable s ! j)) \<and>
     chan (ptable t ! j) = chan (ptable s ! j) \<and>
     state (ptable t ! j) =
       (if (\<exists>i<n. parent (ptable s ! i) = ProcAddr c \<and> state (ptable s ! i) = ZOMBIE) \<and>
           state (ptable s ! j) = SLEEPING \<and> chan (ptable s ! j) = initproc s
        then RUNNABLE else state (ptable s ! j))"
    by (simp add: t_def)
  from ih n have pn: "parent (ptable t ! n) = parent (ptable s ! n)" by simp
  from ih n have zn: "state (ptable t ! n) = ZOMBIE \<longleftrightarrow> state (ptable s ! n) = ZOMBIE" by auto
  have ex: "(\<exists>i<Suc n. parent (ptable s ! i) = ProcAddr c \<and> state (ptable s ! i) = ZOMBIE) \<longleftrightarrow>
      (\<exists>i<n. parent (ptable s ! i) = ProcAddr c \<and> state (ptable s ! i) = ZOMBIE) \<or>
      (parent (ptable s ! n) = ProcAddr c \<and> state (ptable s ! n) = ZOMBIE)"
    by (auto simp: less_Suc_eq)
  show ?case
  proof (intro allI impI)
    fix j
    assume j: "j < length (ptable s)"
    from n j len have nt: "n < length (ptable t)" and jt: "j < length (ptable t)" by simp_all
    note st = exit_step_nth [OF nt jt, of c]
    from ih j have ihj: "parent (ptable t ! j) =
       (if j < n \<and> parent (ptable s ! j) = ProcAddr c then initproc s
        else parent (ptable s ! j))"
      "chan (ptable t ! j) = chan (ptable s ! j)"
      "state (ptable t ! j) =
       (if (\<exists>i<n. parent (ptable s ! i) = ProcAddr c \<and> state (ptable s ! i) = ZOMBIE) \<and>
           state (ptable s ! j) = SLEEPING \<and> chan (ptable s ! j) = initproc s
        then RUNNABLE else state (ptable s ! j))"
      by simp_all
    have "parent (ptable (exit_step c t n) ! j) =
       (if j < Suc n \<and> parent (ptable s ! j) = ProcAddr c then initproc s
        else parent (ptable s ! j))"
      using st(1) ihj(1) pn init by (auto simp: less_Suc_eq)
    moreover have "chan (ptable (exit_step c t n) ! j) = chan (ptable s ! j)"
      using st(2) ihj(2) by simp
    moreover have "state (ptable (exit_step c t n) ! j) =
       (if (\<exists>i<Suc n. parent (ptable s ! i) = ProcAddr c \<and> state (ptable s ! i) = ZOMBIE) \<and>
           state (ptable s ! j) = SLEEPING \<and> chan (ptable s ! j) = initproc s
        then RUNNABLE else state (ptable s ! j))"
      unfolding ex using st(3) ihj(2,3) pn zn init by auto
    ultimately show "parent (ptable (exit_loop c (Suc n) s) ! j) =
       (if j < Suc n \<and> parent (ptable s ! j) = ProcAddr c then initproc s
        else parent (ptable s ! j)) \<and>
     chan (ptable (exit_loop c (Suc n) s) ! j) = chan (ptable s ! j) \<and>
     state (ptable (exit_loop c (Suc n) s) ! j) =
       (if (\<exists>i<Suc n. parent (ptable s ! i) = ProcAddr c \<and> state (ptable s ! i) = ZOMBIE) \<and>
           state (ptable s ! j) = SLEEPING \<and> chan (ptable s ! j) = initproc s
        then RUNNABLE else state (ptable s ! j))"
      by (simp add: t_def)
  qed
qed

text \<open>
  The table with which \<open>exit\<close> switches to the scheduler, slot by slot: who has been
  given to init and who has been woken.
\<close>

lemma exit_zombie_nth:
  assumes c: "c < length (ptable s)" and j: "j < length (ptable s)"
  shows "length (ptable (exit_zombie c s)) = length (ptable s)"
    and "parent (ptable (exit_zombie c s) ! j) =
      (if parent (ptable s ! j) = ProcAddr c then initproc s else parent (ptable s ! j))"
    and "state (ptable (exit_zombie c s) ! j) =
      (if j = c then ZOMBIE
       else if state (ptable s ! j) = SLEEPING \<and>
          (chan (ptable s ! j) = parent (ptable s ! c) \<or>
           chan (ptable s ! j) = initproc s \<and>
           (\<exists>i<length (ptable s). parent (ptable s ! i) = ProcAddr c \<and> state (ptable s ! i) = ZOMBIE))
       then RUNNABLE else state (ptable s ! j))"
proof -
  define s1 where "s1 = s\<lparr>ptable := (ptable s)[c := (ptable s ! c)
                    \<lparr>ofile := map (\<lambda>f. 0) (ofile (ptable s ! c)), cwd := 0\<rparr>]\<rparr>"
  define s2 where "s2 = wakeup1 s1 (parent (ptable s1 ! c))"
  define s3 where "s3 = exit_loop c (length (ptable s2)) s2"
  have ez: "exit_zombie c s = s3\<lparr>ptable := (ptable s3)[c := (ptable s3 ! c)\<lparr>state := ZOMBIE\<rparr>]\<rparr>"
    by (simp add: exit_zombie_def Let_def s1_def s2_def s3_def)
  have l1: "length (ptable s1) = length (ptable s)" and i1: "initproc s1 = initproc s"
    by (simp_all add: s1_def)
  have f1: "\<And>k. k < length (ptable s) \<Longrightarrow> parent (ptable s1 ! k) = parent (ptable s ! k) \<and>
      chan (ptable s1 ! k) = chan (ptable s ! k) \<and> state (ptable s1 ! k) = state (ptable s ! k)"
    using c by (simp add: s1_def nth_list_update)
  have l2: "length (ptable s2) = length (ptable s)" and i2: "initproc s2 = initproc s"
    by (simp_all add: s2_def wakeup1_def length_wakeup1_loop l1 i1)
  have f2: "\<And>k. k < length (ptable s) \<Longrightarrow> parent (ptable s2 ! k) = parent (ptable s ! k) \<and>
      chan (ptable s2 ! k) = chan (ptable s ! k) \<and>
      state (ptable s2 ! k) =
        (if state (ptable s ! k) = SLEEPING \<and> chan (ptable s ! k) = parent (ptable s ! c)
         then RUNNABLE else state (ptable s ! k))"
    using f1 c by (simp add: s2_def wakeup1_def nth_wakeup1_loop l1)
  from exit_loop_frame [of c "length (ptable s2)" s2]
  have l3: "length (ptable s3) = length (ptable s)"
    by (simp add: s3_def l2)
  have zs: "(\<exists>i<length (ptable s). parent (ptable s2 ! i) = ProcAddr c \<and> state (ptable s2 ! i) = ZOMBIE)
      \<longleftrightarrow> (\<exists>i<length (ptable s). parent (ptable s ! i) = ProcAddr c \<and> state (ptable s ! i) = ZOMBIE)"
  proof -
    have "\<And>i. i < length (ptable s) \<Longrightarrow>
        (parent (ptable s2 ! i) = ProcAddr c \<and> state (ptable s2 ! i) = ZOMBIE) =
        (parent (ptable s ! i) = ProcAddr c \<and> state (ptable s ! i) = ZOMBIE)"
      using f2 by (simp split: if_splits)
    then show ?thesis by blast
  qed
  from exit_loop_nth [of "length (ptable s2)" s2 c] j
  have f3: "parent (ptable s3 ! j) =
       (if parent (ptable s2 ! j) = ProcAddr c then initproc s2 else parent (ptable s2 ! j))"
    "state (ptable s3 ! j) =
       (if (\<exists>i<length (ptable s). parent (ptable s2 ! i) = ProcAddr c \<and> state (ptable s2 ! i) = ZOMBIE) \<and>
           state (ptable s2 ! j) = SLEEPING \<and> chan (ptable s2 ! j) = initproc s2
        then RUNNABLE else state (ptable s2 ! j))"
    by (simp_all add: s3_def l2)
  show "length (ptable (exit_zombie c s)) = length (ptable s)"
    by (simp add: ez l3)
  show "parent (ptable (exit_zombie c s) ! j) =
      (if parent (ptable s ! j) = ProcAddr c then initproc s else parent (ptable s ! j))"
    using f3(1) f2 [OF j] i2 c j by (simp add: ez l3 nth_list_update)
  show "state (ptable (exit_zombie c s) ! j) =
      (if j = c then ZOMBIE
       else if state (ptable s ! j) = SLEEPING \<and>
          (chan (ptable s ! j) = parent (ptable s ! c) \<or>
           chan (ptable s ! j) = initproc s \<and>
           (\<exists>i<length (ptable s). parent (ptable s ! i) = ProcAddr c \<and> state (ptable s ! i) = ZOMBIE))
       then RUNNABLE else state (ptable s ! j))"
    using f3(2) f2 [OF j] i2 c j unfolding zs by (auto simp: ez l3 nth_list_update)
qed

text \<open>
  C5. The caller is the running process and not init. In the kernel state with which
  \<open>exit\<close> switches to the scheduler: every slot whose parent was the caller has init as
  its parent; if one of them was a Zombie, an init that was sleeping on its own address is
  RUNNABLE; a parent of the caller that was sleeping on its own address is RUNNABLE; the
  caller is a ZOMBIE. The call never returns: it panics, or the caller is suspended in
  that state for good; and when \<^verbatim>\<open>sched\<close> passes its checks and the caller is never
  switched back to, it is suspended in exactly that state.
\<close>

theorem exit_reparents_wakes_and_never_returns:
  assumes "c < length (ptable s)" and "ProcAddr c \<noteq> initproc s"
    and "state (ptable s ! c) = RUNNING"
  shows "(\<forall>i<length (ptable s). parent (ptable s ! i) = ProcAddr c \<longrightarrow>
            parent (ptable (exit_zombie c s) ! i) = initproc s) \<and>
    ((\<exists>i<length (ptable s). parent (ptable s ! i) = ProcAddr c \<and> state (ptable s ! i) = ZOMBIE) \<longrightarrow>
       (\<forall>r<length (ptable s). initproc s = ProcAddr r \<and> state (ptable s ! r) = SLEEPING \<and>
            chan (ptable s ! r) = ProcAddr r \<longrightarrow>
          state (ptable (exit_zombie c s) ! r) = RUNNABLE)) \<and>
    (\<forall>q<length (ptable s). parent (ptable s ! c) = ProcAddr q \<and> state (ptable s ! q) = SLEEPING \<and>
          chan (ptable s ! q) = ProcAddr q \<longrightarrow>
        state (ptable (exit_zombie c s) ! q) = RUNNABLE) \<and>
    state (ptable (exit_zombie c s) ! c) = ZOMBIE \<and>
    (\<forall>v s'. exit cp c env s \<noteq> Returns v s') \<and>
    ((\<exists>msg. exit cp c env s = Panics msg) \<or> exit cp c env s = Suspended (exit_zombie c s)) \<and>
    (sched cp c (exit_zombie c s) = None \<longrightarrow> exit cp c [] s = Suspended (exit_zombie c s))"
proof (intro conjI allI impI)
  fix i
  assume "i < length (ptable s)" "parent (ptable s ! i) = ProcAddr c"
  with exit_zombie_nth(2) [OF assms(1), of i]
  show "parent (ptable (exit_zombie c s) ! i) = initproc s" by simp
next
  fix r
  assume z: "\<exists>i<length (ptable s). parent (ptable s ! i) = ProcAddr c \<and> state (ptable s ! i) = ZOMBIE"
    and r: "r < length (ptable s)"
    and h: "initproc s = ProcAddr r \<and> state (ptable s ! r) = SLEEPING \<and> chan (ptable s ! r) = ProcAddr r"
  from h assms(2) have "r \<noteq> c" by auto
  with exit_zombie_nth(3) [OF assms(1) r] z h
  show "state (ptable (exit_zombie c s) ! r) = RUNNABLE" by simp
next
  fix q
  assume q: "q < length (ptable s)"
    and h: "parent (ptable s ! c) = ProcAddr q \<and> state (ptable s ! q) = SLEEPING \<and>
          chan (ptable s ! q) = ProcAddr q"
  from h assms(3) have "q \<noteq> c" by auto
  with exit_zombie_nth(3) [OF assms(1) q] h
  show "state (ptable (exit_zombie c s) ! q) = RUNNABLE" by simp
next
  from exit_zombie_nth(3) [OF assms(1) assms(1)]
  show "state (ptable (exit_zombie c s) ! c) = ZOMBIE" by simp
next
  fix v s'
  show "exit cp c env s \<noteq> Returns v s'"
    by (simp add: exit_def Let_def split: option.splits list.splits)
next
  show "(\<exists>msg. exit cp c env s = Panics msg) \<or> exit cp c env s = Suspended (exit_zombie c s)"
    by (simp add: exit_def Let_def split: option.splits list.splits)
next
  assume "sched cp c (exit_zombie c s) = None"
  with assms(2) show "exit cp c [] s = Suspended (exit_zombie c s)"
    by (simp add: exit_def Let_def)
qed

theorem exit_reparents_wakes_and_never_returns_witness:
  "map parent (ptable (exit_zombie 1 (mk_state w_table))) =
     [Null, ProcAddr 0, ProcAddr 0, ProcAddr 0, ProcAddr 0] \<and>
   map state (ptable (exit_zombie 1 (mk_state w_table))) =
     [RUNNABLE, ZOMBIE, SLEEPING, ZOMBIE, ZOMBIE] \<and>
   exit ok_cpu 1 [] (mk_state w_table) = Suspended (exit_zombie 1 (mk_state w_table)) \<and>
   exit ok_cpu 1 [mk_state w_table] (mk_state w_table) = Panics ''zombie exit''"
proof -
  let ?s = "mk_state w_table"
  have a: "1 < length (ptable ?s)" and b: "ProcAddr 1 \<noteq> initproc ?s"
    and c: "state (ptable ?s ! 1) = RUNNING"
    by (simp_all add: mk_state_def w_table_def slot0_def)
  have ez: "map parent (ptable (exit_zombie 1 ?s)) =
     [Null, ProcAddr 0, ProcAddr 0, ProcAddr 0, ProcAddr 0] \<and>
   map state (ptable (exit_zombie 1 ?s)) = [RUNNABLE, ZOMBIE, SLEEPING, ZOMBIE, ZOMBIE]"
    by (simp add: exit_zombie_def exit_step_def wakeup1_def mk_state_def w_table_def slot0_def
        Let_def eval_nat_numeral)
  note inst = exit_reparents_wakes_and_never_returns [OF a b c, of ok_cpu "[]"]
  from inst have "state (ptable (exit_zombie 1 ?s) ! 1) = ZOMBIE" by blast
  then have sc: "sched ok_cpu 1 (exit_zombie 1 ?s) = None"
    by (simp add: sched_def ok_cpu_def)
  with inst have "exit ok_cpu 1 [] ?s = Suspended (exit_zombie 1 ?s)" by blast
  moreover have "exit ok_cpu 1 [?s] ?s = Panics ''zombie exit''"
    using sc b by (simp add: exit_def Let_def)
  ultimately show ?thesis using ez by simp
qed

subsection \<open>The ticket lock\<close>

lemma unat_succ32:
  fixes w :: "32 word"
  assumes "Suc (unat w) < 2 ^ 32"
  shows "unat (w + 1) = Suc (unat w)"
proof -
  from assms have "unat w + unat (1 :: 32 word) < 2 ^ LENGTH(32)" by simp
  then have "unat (w + 1) = unat w + unat (1 :: 32 word)"
    by (rule unat_add_lem [THEN iffD1])
  then show ?thesis by simp
qed









lemma run_append:
  "run (as @ bs) s = (case run as s of None \<Rightarrow> None | Some s' \<Rightarrow> run bs s')"
  by (induction as arbitrary: s) (simp_all split: option.splits)





text \<open>
  That state lasts: whatever the threads do next, nobody enters the critical section and
  thread 1 stays asleep, until the ticket counter has wrapped around.
\<close>

lemma tl_stuck_lost: "\<exists>s. run tl_lost tl_init = Some s \<and> tl_stuck 2 s"
  by (simp add: tl_stuck_def tl_lost_def tl_init_def initlock_t_def acquire_t_fetch_def
      acquire_t_test_def ticket_sleep_def release_t_def fetch_and_add_def)

lemma tl_stuck_step:
  assumes st: "tl_stuck k s" and a: "step a s = Some s'"
    and k: "k + (if is_fetch a then 1 else 0) < 2 ^ 32"
  shows "tl_stuck (k + (if is_fetch a then 1 else 0)) s'"
proof -
  from st have tk: "\<And>j n. j \<noteq> 1 \<Longrightarrow> ticket_of (thread s j) = Some n \<Longrightarrow> 2 \<le> unat n"
    unfolding tl_stuck_def by blast
  show ?thesis
  proof (cases a)
  case (Fetch i)
  with a have out: "thread s i = Outside" and s': "s' = acquire_t_fetch i s"
    by (simp_all split: tstate.splits)
  from out st have i1: "i \<noteq> 1" by (auto simp: tl_stuck_def)
  from st have nk: "unat (next_ticket (lk s)) = k" and k2: "2 \<le> k" by (simp_all add: tl_stuck_def)
  from k Fetch nk have "unat (next_ticket (lk s) + 1) = Suc k"
    by (simp add: unat_succ32)
  with st i1 nk k2 Fetch show ?thesis
    by (auto simp: tl_stuck_def s' acquire_t_fetch_def fetch_and_add_def)
next
  case (Test i)
  with a obtain m where at: "thread s i = Testing m" and s': "s' = acquire_t_test i m s"
    by (auto split: tstate.splits)
  from at st have i1: "i \<noteq> 1" by (auto simp: tl_stuck_def)
  with at tk [of i m] have "2 \<le> unat m" by simp
  then have "m \<noteq> 1" by auto
  with st have "current_turn (lk s) \<noteq> m" by (simp add: tl_stuck_def)
  with st i1 at \<open>2 \<le> unat m\<close> Test show ?thesis
    by (auto simp: tl_stuck_def s' acquire_t_test_def)
next
  case (Sleep i)
  with a obtain m where at: "thread s i = Sleepy m" and s': "s' = ticket_sleep i m s"
    by (auto split: tstate.splits)
  from at st have i1: "i \<noteq> 1" by (auto simp: tl_stuck_def)
  with at tk [of i m] have "2 \<le> unat m" by simp
  with st i1 at Sleep show ?thesis
    by (auto simp: tl_stuck_def s' ticket_sleep_def)
next
  case (Release i)
  with a obtain m where "thread s i = Critical m"
    by (auto split: tstate.splits)
  with st show ?thesis by (simp add: tl_stuck_def)
  qed
qed

lemma tl_stuck_run:
  "tl_stuck k s \<Longrightarrow> run acts s = Some s' \<Longrightarrow> k + length (filter is_fetch acts) < 2 ^ 32 \<Longrightarrow>
   tl_stuck (k + length (filter is_fetch acts)) s'"
proof (induction acts arbitrary: k s)
  case Nil
  then show ?case by simp
next
  case (Cons a acts)
  from Cons.prems(2) obtain t where t: "step a s = Some t" and r: "run acts t = Some s'"
    by (auto split: option.splits)
  have fl: "k + length (filter is_fetch (a # acts)) =
      k + (if is_fetch a then 1 else 0) + length (filter is_fetch acts)"
    by simp
  from Cons.prems(3) have b: "k + (if is_fetch a then 1 else 0) + length (filter is_fetch acts) < 2 ^ 32"
    unfolding fl .
  then have "k + (if is_fetch a then 1 else 0) < 2 ^ 32" by simp
  from tl_stuck_step [OF Cons.prems(1) t this]
  have "tl_stuck (k + (if is_fetch a then 1 else 0)) t" .
  from Cons.IH [OF this r b] show ?case unfolding fl .
qed

lemma lost_wakeup_is_for_good:
  assumes "run (tl_lost @ acts) tl_init = Some s"
    and "2 + length (filter is_fetch acts) < 2 ^ 32"
  shows "thread s 1 = Asleep 1 \<and> current_turn (lk s) = 1 \<and> (\<forall>i m. thread s i \<noteq> Critical m)"
proof -
  from tl_stuck_lost obtain t where t: "run tl_lost tl_init = Some t" and st: "tl_stuck 2 t"
    by blast
  from assms(1) t have "run acts t = Some s" by (simp add: run_append)
  from tl_stuck_run [OF st this assms(2)] show ?thesis by (simp add: tl_stuck_def)
qed

text \<open>
  The order by ticket number ends where the 32-bit counter wraps around. After
  \<open>2 ^ 32 - 1\<close> rounds of one thread taking and releasing the lock, thread 0 draws the
  ticket 4294967295 and thread 1 draws the ticket 0 after it: thread 0, with the larger
  ticket, enters first.
\<close>

lemma tl_round_step:
  "run tl_round \<lparr>lk = \<lparr>next_ticket = w, current_turn = w\<rparr>, thread = (\<lambda>i. Outside), entered = e\<rparr> =
   Some \<lparr>lk = \<lparr>next_ticket = w + 1, current_turn = w + 1\<rparr>, thread = (\<lambda>i. Outside),
     entered = e @ [w]\<rparr>"
proof -
  have "(\<lambda>j. case ((\<lambda>i. Outside)(0 := Critical w)) j of Asleep m \<Rightarrow> Testing m | st \<Rightarrow> st)
      (0 := Outside) = (\<lambda>i. Outside)"
    by (rule ext) simp
  then show ?thesis
    by (simp add: tl_round_def acquire_t_fetch_def acquire_t_test_def release_t_def
        fetch_and_add_def)
qed

lemma tl_rounds:
  "run (concat (replicate n tl_round)) tl_init =
   Some \<lparr>lk = \<lparr>next_ticket = of_nat n, current_turn = of_nat n\<rparr>, thread = (\<lambda>i. Outside),
     entered = map of_nat [0 ..< n]\<rparr>"
proof (induction n)
  case 0
  show ?case by (simp add: tl_init_def initlock_t_def)
next
  case (Suc n)
  have r: "replicate (Suc n) tl_round = replicate n tl_round @ [tl_round]"
    by (simp add: replicate_append_same)
  have "concat (replicate (Suc n) tl_round) = concat (replicate n tl_round) @ tl_round"
    unfolding r by simp
  with Suc tl_round_step [of "of_nat n" "map of_nat [0 ..< n]"] show ?case
    by (simp add: run_append add.commute)
qed

lemma tl_wrap_tail:
  "map_option (\<lambda>s. (thread s 0, thread s 1))
     (run [Fetch 0, Fetch 1, Test 0]
        \<lparr>lk = \<lparr>next_ticket = 4294967295, current_turn = 4294967295\<rparr>, thread = (\<lambda>i. Outside),
         entered = e\<rparr>) = Some (Critical 4294967295, Testing 0)"
  by (simp add: acquire_t_fetch_def acquire_t_test_def fetch_and_add_def)

lemma ticket_order_breaks_after_wrap:
  "map_option (\<lambda>s. (thread s 0, thread s 1))
     (run (concat (replicate 4294967295 tl_round) @ [Fetch 0, Fetch 1, Test 0]) tl_init) =
   Some (Critical 4294967295, Testing 0)"
proof -
  have "(of_nat 4294967295 :: 32 word) = 4294967295" by simp
  with tl_rounds [of 4294967295]
  have "run (concat (replicate 4294967295 tl_round)) tl_init =
   Some \<lparr>lk = \<lparr>next_ticket = 4294967295, current_turn = 4294967295\<rparr>, thread = (\<lambda>i. Outside),
     entered = map of_nat [0 ..< 4294967295]\<rparr>"
    by (simp only:)
  then show ?thesis
    by (simp only: run_append option.case tl_wrap_tail)
qed

end
